theory Spec2Isabelle
  imports Main "HOL-Library.AList"
begin

section \<open>The UEMS gateway: request correlation and dispatch\<close>

text \<open>
  A shallow embedding of \<^verbatim>\<open>GatewayMk2.GatewayMessageHandler\<close> (src/Gateway.ts) and of the
  two \<^verbatim>\<open>GET /E/:id\<close> handlers (EquipmentGatewayInterface, UserGatewayInterface).

  JavaScript numbers are modelled as \<^typ>\<open>int\<close>: message identifiers, statuses and
  millisecond timestamps are integers far below \<open>2^53\<close>, where doubles are exact;
  a JSON number with a fraction is outside the model.
  The gateway runs on one event loop: a turn of the loop (the consume handler on one frame,
  one run of the terminator, the continuation of one promise) is one atomic state change.
\<close>

subsection \<open>Values\<close>

datatype json =
    JNull
  | JBool bool
  | JNum int
  | JStr string
  | JArr "json list"
  | JObj "(string \<times> json) list"

text \<open>What a \<^verbatim>\<open>throw\<close> (or a rejected promise of an async function) carries.\<close>

datatype exn = Error string | SyntaxError | TypeError

text \<open>An express \<^verbatim>\<open>Response\<close> is a handle; what is written to it is kept in the world.\<close>

type_synonym Response = nat

text \<open>
  Everything outside the gateway object that its code and the completion callbacks act on:
  the identifier pool of \<^verbatim>\<open>MessageUtilities\<close> and the HTTP responses written so far
  (responder, status code, body).
\<close>

record world =
  allocated :: "int set"
  http :: "(Response \<times> int \<times> json) list"

text \<open>
  \<^verbatim>\<open>RequestCallback = (http, timestamp, response, status) => void\<close>: the callback is code of
  the caller, so it is any function acting on the world, and it may throw: it returns the
  exception, if any, and the world it leaves. It does not reach into the gateway object: a
  callback that itself sends a request is outside the model.
\<close>

type_synonym RequestCallback =
  "Response \<Rightarrow> int \<Rightarrow> json \<Rightarrow> int \<Rightarrow> world \<Rightarrow> exn option \<times> world"

text \<open>
  \<^verbatim>\<open>MessageValidator.validate(json): Promise<boolean>\<close> of the library uemscommlib, an
  async method: the call returns a promise, which later resolves to a boolean or rejects.
\<close>

datatype validation = Resolves bool | Rejects

type_synonym MessageValidator = "json \<Rightarrow> validation"

record PendingRequest =
  uid :: int
  response :: Response
  callback :: RequestCallback
  timestamp :: int
  additionalValidator :: "MessageValidator option"

text \<open>The request message \<^verbatim>\<open>{ msg_id: number, [key: string]: any }\<close>.\<close>

record message =
  msg_id :: int
  props :: "(string \<times> json) list"

text \<open>
  The send channel of amqplib, as the frames handed to it: exchange, routing key, payload
  (the payload stands for \<^verbatim>\<open>Buffer.from(JSON.stringify(data))\<close>).
\<close>

type_synonym Channel = "(string \<times> string \<times> message) list"

text \<open>
  An inbound frame, as \<^verbatim>\<open>JSON.parse(message.content.toString('utf8'))\<close> reads it:
  \<open>Inl SyntaxError\<close> when the text is not JSON, the decoded value otherwise.
\<close>

type_synonym Message = "exn + json"

datatype level = Debug | Info | Warn | Err | Console

text \<open>
  A log line: level, the fixed text (without the prefix \<^verbatim>\<open>[gateway raw incoming]: \<close>), the
  interpolated numbers.
\<close>

type_synonym log_entry = "level \<times> string \<times> int list"

text \<open>One invocation of a completion callback, with its four arguments.\<close>

record invocation =
  inv_http :: Response
  inv_timestamp :: int
  inv_response :: json
  inv_status :: int

text \<open>
  A promise returned by \<^verbatim>\<open>validate(json)\<close> that has not settled yet, with what the
  \<^verbatim>\<open>.then\<close> and \<^verbatim>\<open>.catch\<close> attached to it in \<^verbatim>\<open>handleRawIncoming\<close> have captured: the
  record taken from the table, the reply and its status.
\<close>

record continuation =
  c_request :: PendingRequest
  c_reply :: json
  c_status :: int
  c_outcome :: validation

text \<open>
  Modelled from the spec: \<^verbatim>\<open>EntityResolver\<close> (src/resolver/EntityResolver.ts) is not under
  src/. Section 4.7: \<open>intercept(id)\<close> is true iff the resolver is awaiting that id, and
  \<open>consume(reply)\<close> satisfies the intercepted request: the id leaves the intercept set and
  the reply is recorded.
\<close>

record EntityResolver =
  awaiting :: "int list"
  consumed :: "json list"

definition intercept :: "EntityResolver \<Rightarrow> int \<Rightarrow> bool" where
  "intercept r i = (i \<in> set (awaiting r))"

definition consume :: "EntityResolver \<Rightarrow> int \<Rightarrow> json \<Rightarrow> EntityResolver" where
  "consume r i reply = r\<lparr>awaiting := removeAll i (awaiting r), consumed := consumed r @ [reply]\<rparr>"

subsection \<open>The gateway object\<close>

text \<open>
  \<open>outstandingRequests\<close> is a JavaScript \<^verbatim>\<open>Map<number, PendingRequest>\<close>: keys in insertion
  order, no key twice. \<^verbatim>\<open>set\<close> is \<^const>\<open>AList.update\<close> (replace in place, or append),
  \<^verbatim>\<open>get\<close> is \<^const>\<open>map_of\<close>, \<^verbatim>\<open>delete\<close> is \<^const>\<open>AList.delete\<close>.
  The fields \<open>connection\<close>, \<open>receiveChannel\<close> and \<open>basicValidator\<close> are read by none of the
  operations below and are left out. \<open>validating\<close> holds the validator promises of the
  runtime that have not settled, \<open>invoked\<close> records the callback invocations and \<open>logged\<close>
  the log lines, in order.
\<close>

record gateway =
  sendChannel :: "Channel option"
  resolver :: "EntityResolver option"
  outstandingRequests :: "(int \<times> PendingRequest) list"
  terminatorInterval :: int
  world :: world
  validating :: "continuation list"
  invoked :: "invocation list"
  logged :: "log_entry list"

definition say :: "level \<Rightarrow> string \<Rightarrow> int list \<Rightarrow> gateway \<Rightarrow> gateway" where
  "say l text args st = st\<lparr>logged := logged st @ [(l, text, args)]\<rparr>"


text \<open>
  Modelled from the spec: \<^verbatim>\<open>MessageUtilities\<close> (src/utilities/MessageUtilities.ts) is not
  under src/. Section 4.1: \<open>release(id)\<close> removes the id from the allocated set and is
  idempotent.
\<close>

definition identifierConsumed :: "int \<Rightarrow> world \<Rightarrow> world" where
  "identifierConsumed i w = w\<lparr>allocated := allocated w - {i}\<rparr>"

text \<open>
  Modelled from the spec: \<^verbatim>\<open>MessageUtilities.wrapInFailure\<close> is not under src/. Section 6:
  the failure envelope is \<^verbatim>\<open>{status: "FAIL", error: {message, code}}\<close>.
\<close>

definition wrapInFailure :: "json \<Rightarrow> json" where
  "wrapInFailure e = JObj [(''status'', JStr ''FAIL''), (''error'', e)]"

text \<open>
  Modelled from the spec: \<^verbatim>\<open>ErrorCodes\<close> (src/constants/ErrorCodes.ts) is not under src/.
  Section 4.6 gives the code \<^verbatim>\<open>SERVICE_TIMEOUT\<close>; the message text is a parameter.
\<close>

definition SERVICE_TIMEOUT :: "string \<Rightarrow> json" where
  "SERVICE_TIMEOUT text = JObj [(''message'', JStr text), (''code'', JStr ''SERVICE_TIMEOUT'')]"

text \<open>
  Modelled from the spec: \<^verbatim>\<open>MessageUtilities.has(object, key)\<close> is not under src/. On an
  object it tells whether the key is present (section 4.5, step 2). What it does on a
  decoded value that is not an object, answer or throw, is given by the parameter \<open>other\<close>.
\<close>

definition has :: "(json \<Rightarrow> string \<Rightarrow> exn + bool) \<Rightarrow> json \<Rightarrow> string \<Rightarrow> exn + bool" where
  "has other j k = (case j of JObj fs \<Rightarrow> Inr (map_of fs k \<noteq> None) | _ \<Rightarrow> other j k)"

text \<open>
  The property read \<^verbatim>\<open>json.msg_id\<close>, \<^verbatim>\<open>json.status\<close>: the member of an object,
  \<^verbatim>\<open>undefined\<close> on any other value, a TypeError on \<^verbatim>\<open>null\<close>.
\<close>

definition read_prop :: "json \<Rightarrow> string \<Rightarrow> exn + json option" where
  "read_prop j k = (case j of JObj fs \<Rightarrow> Inr (map_of fs k) | JNull \<Rightarrow> Inl TypeError | _ \<Rightarrow> Inr None)"

text \<open>
  The guard \<^verbatim>\<open>!MessageUtilities.has(json, k) || typeof (json[k]) !== 'number'\<close>, read the
  other way round: \<open>Some n\<close> when the guard is false and \<open>json[k]\<close> is the number \<open>n\<close>,
  \<open>None\<close> when the guard is true.
\<close>

definition numeric :: "(json \<Rightarrow> string \<Rightarrow> exn + bool) \<Rightarrow> json \<Rightarrow> string \<Rightarrow> exn + int option" where
  "numeric other j k =
     (case has other j k of
        Inl e \<Rightarrow> Inl e
      | Inr False \<Rightarrow> Inr None
      | Inr True \<Rightarrow>
          (case read_prop j k of
             Inl e \<Rightarrow> Inl e
           | Inr (Some (JNum n)) \<Rightarrow> Inr (Some n)
           | Inr _ \<Rightarrow> Inr None))"

text \<open>\<^verbatim>\<open>res.status(code).json(body)\<close>\<close>

definition respond :: "Response \<Rightarrow> int \<Rightarrow> json \<Rightarrow> world \<Rightarrow> world" where
  "respond res code body w = w\<lparr>http := http w @ [(res, code, body)]\<rparr>"

definition REQUEST_EXCHANGE :: string where
  "REQUEST_EXCHANGE = ''request''"

text \<open>
  The constructor: an empty table, no channel, no resolver, and the terminator scheduled
  with \<^verbatim>\<open>setInterval(this.terminateTimedOut, 2000)\<close>.
\<close>

definition constructor :: "world \<Rightarrow> gateway" where
  "constructor w =
     \<lparr>sendChannel = None, resolver = None, outstandingRequests = [],
      terminatorInterval = 2000, world = w, validating = [], invoked = [],
      logged = [(Info, ''created Gateway and scheduled terminator'', [])]\<rparr>"

subsection \<open>The terminator\<close>

text \<open>The test \<^verbatim>\<open>now - entry.timestamp > 15000\<close>.\<close>

definition overdue :: "int \<Rightarrow> PendingRequest \<Rightarrow> bool" where
  "overdue now entry = (now - timestamp entry > 15000)"

text \<open>The body of the \<^verbatim>\<open>if\<close> in \<^verbatim>\<open>terminateTimedOut\<close>, statement by statement.\<close>

definition expire :: "string \<Rightarrow> int \<Rightarrow> PendingRequest \<Rightarrow> gateway \<Rightarrow> gateway" where
  "expire text key entry st =
     (let st1 = say Debug ''terminating request'' [uid entry, timestamp entry] st;
          st2 = st1\<lparr>world := respond (response entry) 504
                  (wrapInFailure (SERVICE_TIMEOUT text)) (world st1)\<rparr>;
          st3 = st2\<lparr>outstandingRequests := AList.delete key (outstandingRequests st2)\<rparr>
      in st3\<lparr>world := identifierConsumed (uid entry) (world st3)\<rparr>)"

text \<open>
  \<^verbatim>\<open>for (const key of this.outstandingRequests.keys())\<close>. The body deletes no key but
  the current one, so the live iterator visits the keys the table had when the loop began.
\<close>

fun terminate_loop :: "string \<Rightarrow> int \<Rightarrow> int list \<Rightarrow> gateway \<Rightarrow> gateway" where
  "terminate_loop text now [] st = st"
| "terminate_loop text now (key # keys) st =
     terminate_loop text now keys
       (case map_of (outstandingRequests st) key of
          None \<Rightarrow> st
        | Some entry \<Rightarrow>
            if overdue now entry then expire text key entry st else st)"

definition terminateTimedOut :: "string \<Rightarrow> gateway \<Rightarrow> int \<Rightarrow> gateway" where
  "terminateTimedOut text st now =
     terminate_loop text now (map fst (outstandingRequests st)) st"

subsection \<open>The reply handler\<close>

text \<open>
  \<^verbatim>\<open>request.callback(request.response, request.timestamp, json, json.status)\<close>: the
  invocation is recorded, the world is what the callback leaves, and the exception is what
  the callback throws.
\<close>

definition complete :: "PendingRequest \<Rightarrow> json \<Rightarrow> int \<Rightarrow> gateway \<Rightarrow> exn option \<times> gateway" where
  "complete request j status st =
     (let (thrown, w) = callback request (response request) (timestamp request) j status (world st)
      in (thrown,
          st\<lparr>world := w,
             invoked := invoked st @
               [\<lparr>inv_http = response request, inv_timestamp = timestamp request,
                 inv_response = j, inv_status = status\<rparr>]\<rparr>))"

text \<open>
  \<^verbatim>\<open>handleRawIncoming\<close> from the debug line on, with \<open>mid = json.msg_id\<close> and
  \<open>status = json.status\<close>. The record is deleted at once. Without a validator the callback
  runs in the handler, outside any \<^verbatim>\<open>try\<close>, so what it throws leaves the handler. With a
  validator, \<^verbatim>\<open>validate(json)\<close> is called and its promise is left to settle: the
  \<^verbatim>\<open>.then\<close> and \<^verbatim>\<open>.catch\<close> run in a later turn, see \<open>settle\<close>. The calls
  \<open>intercept\<close>, \<open>consume\<close> and \<open>identifierConsumed\<close> are as the spec has them, where they
  do not fail.
\<close>

definition dispatch ::
  "EntityResolver \<Rightarrow> json \<Rightarrow> int \<Rightarrow> int \<Rightarrow> gateway \<Rightarrow> exn option \<times> gateway" where
  "dispatch r j mid status st0 =
     (let st = say Debug ''incoming message'' [mid, status] st0 in
      if intercept r mid then
        (None,
         st\<lparr>world := identifierConsumed mid (world st), resolver := Some (consume r mid j)\<rparr>)
      else
        (case map_of (outstandingRequests st) mid of
           None \<Rightarrow>
             (None,
              say Warn ''message was received that did not match a pending request. has it already timed out?''
                [mid] st)
         | Some request \<Rightarrow>
             (let st1 = st\<lparr>outstandingRequests := AList.delete mid (outstandingRequests st)\<rparr> in
              case additionalValidator request of
                None \<Rightarrow> complete request j status st1
              | Some v \<Rightarrow>
                  (None,
                   st1\<lparr>validating := validating st1 @
                          [\<lparr>c_request = request, c_reply = j, c_status = status,
                            c_outcome = v j\<rparr>]\<rparr>))))"

text \<open>
  The result is the exception that leaves the handler, if any, and the state the handler
  leaves: a \<^verbatim>\<open>throw\<close> undoes nothing.
\<close>

definition handleRawIncoming ::
  "(json \<Rightarrow> string \<Rightarrow> exn + bool) \<Rightarrow> gateway \<Rightarrow> Message option \<Rightarrow> exn option \<times> gateway" where
  "handleRawIncoming other st message =
     (case resolver st of
        None \<Rightarrow> (Some (Error ''Gateway not configured properly, no resolver''), st)
      | Some r \<Rightarrow>
          (case message of
             None \<Rightarrow> (None, say Warn ''null message received, ignoring it'' [] st)
           | Some (Inl e) \<Rightarrow> (Some e, st)
           | Some (Inr j) \<Rightarrow>
               (case numeric other j ''msg_id'' of
                  Inl e \<Rightarrow> (Some e, st)
                | Inr None \<Rightarrow>
                    (None, say Warn ''message was received without an ID. Ignoring'' [] st)
                | Inr (Some mid) \<Rightarrow>
                    (case numeric other j ''status'' of
                       Inl e \<Rightarrow> (Some e, st)
                     | Inr None \<Rightarrow>
                         (None, say Warn ''message was received without a status. Ignoring'' [] st)
                     | Inr (Some status) \<Rightarrow> dispatch r j mid status st))))"

text \<open>
  The promise at position \<open>n\<close> settles and its continuation runs:
  \<^verbatim>\<open>.then((validated) => { if (validated) callback(...) else warn })\<close>, and
  \<^verbatim>\<open>.catch\<close> logs the error when the promise rejected or the callback threw. Promises
  settle in any order, so \<open>n\<close> is any position; a position that is not there does nothing.
\<close>

definition settle :: "nat \<Rightarrow> gateway \<Rightarrow> gateway" where
  "settle n st =
     (if n < length (validating st) then
        (let c = validating st ! n;
             st1 = st\<lparr>validating := take n (validating st) @ drop (Suc n) (validating st)\<rparr>
         in case c_outcome c of
              Resolves True \<Rightarrow>
                (case complete (c_request c) (c_reply c) (c_status c) st1 of
                   (None, st2) \<Rightarrow> st2
                 | (Some e, st2) \<Rightarrow>
                     say Err ''message was rejected because the validator errored out'' [] st2)
            | Resolves False \<Rightarrow>
                say Warn ''message was rejected because it did not pass the additional validator''
                  [] st1
            | Rejects \<Rightarrow>
                say Err ''message was rejected because the validator errored out'' [] st1)
      else st)"

subsection \<open>Sending\<close>

text \<open>
  \<^verbatim>\<open>publish\<close>: the flag \<open>accepted\<close> is what \<^verbatim>\<open>Channel.publish\<close> of amqplib returns.
  A \<^verbatim>\<open>throw\<close> leaves the state as it is, so the state is returned in both cases.
\<close>

definition publish :: "gateway \<Rightarrow> string \<Rightarrow> message \<Rightarrow> bool \<Rightarrow> (exn + bool) \<times> gateway" where
  "publish st key data accepted =
     (case sendChannel st of
        None \<Rightarrow> (Inl (Error ''Gateway is not configured, make sure you have called configure''), st)
      | Some ch \<Rightarrow>
          (let st1 = say Console (''transmitting to '' @ key) [] st;
               st2 = (if map_of (props data) ''userID'' = None
                      then say Console ''undefined userID'' [] st1 else st1)
           in (Inr accepted, st2\<lparr>sendChannel := Some (ch @ [(REQUEST_EXCHANGE, key, data)])\<rparr>)))"

text \<open>
  The first statement of \<^verbatim>\<open>sendRequest\<close>: \<^verbatim>\<open>this.outstandingRequests.set(...)\<close>, with
  \<open>now\<close> for \<^verbatim>\<open>new Date().getTime()\<close>.
\<close>

definition remember ::
  "gateway \<Rightarrow> message \<Rightarrow> Response \<Rightarrow> RequestCallback \<Rightarrow> MessageValidator option \<Rightarrow> int \<Rightarrow> gateway" where
  "remember st message res cb validator now =
     st\<lparr>outstandingRequests :=
          AList.update (msg_id message)
            \<lparr>uid = msg_id message, response = res, callback = cb, timestamp = now,
             additionalValidator = validator\<rparr>
            (outstandingRequests st)\<rparr>"

definition sendRequest ::
  "gateway \<Rightarrow> string \<Rightarrow> message \<Rightarrow> Response \<Rightarrow> RequestCallback \<Rightarrow> MessageValidator option \<Rightarrow>
     int \<Rightarrow> bool \<Rightarrow> (exn + bool) \<times> gateway" where
  "sendRequest st key message res cb validator now accepted =
     publish (remember st message res cb validator now) key message accepted"

text \<open>
  The states that \<^verbatim>\<open>sendRequest\<close> passes through, in order: the state after its first
  statement, the \<^verbatim>\<open>Map.set\<close>, and the state after its second, the \<^verbatim>\<open>publish\<close>.
\<close>

definition sendRequest_states ::
  "gateway \<Rightarrow> string \<Rightarrow> message \<Rightarrow> Response \<Rightarrow> RequestCallback \<Rightarrow> MessageValidator option \<Rightarrow>
     int \<Rightarrow> bool \<Rightarrow> gateway list" where
  "sendRequest_states st key message res cb validator now accepted =
     (let st1 = remember st message res cb validator now;
          st2 = snd (publish st1 key message accepted)
      in [st1, st2])"


subsection \<open>The event loop\<close>

text \<open>
  What the runtime runs on a gateway between two requests, one turn at a time: the consume
  handler on a frame from the inbox, the terminator at clock time \<open>now\<close>, or the
  continuation of a validator promise. An exception that leaves the reply handler ends
  that turn; the state is the one the handler left.
\<close>

datatype event = Incoming "Message option" | Tick int | Settle nat

definition step ::
  "(json \<Rightarrow> string \<Rightarrow> exn + bool) \<Rightarrow> string \<Rightarrow> event \<Rightarrow> gateway \<Rightarrow> gateway" where
  "step other text ev st =
     (case ev of
        Incoming m \<Rightarrow> snd (handleRawIncoming other st m)
      | Tick now \<Rightarrow> terminateTimedOut text st now
      | Settle n \<Rightarrow> settle n st)"

fun run ::
  "(json \<Rightarrow> string \<Rightarrow> exn + bool) \<Rightarrow> string \<Rightarrow> event list \<Rightarrow> gateway \<Rightarrow> gateway" where
  "run other text [] st = st"
| "run other text (ev # evs) st = run other text evs (step other text ev st)"

text \<open>The invocations made so far with a reply whose \<open>msg_id\<close> is \<open>i\<close>.\<close>

definition answers :: "int \<Rightarrow> invocation \<Rightarrow> bool" where
  "answers i c = (read_prop (inv_response c) ''msg_id'' = Inr (Some (JNum i)))"

definition fired :: "int \<Rightarrow> gateway \<Rightarrow> nat" where
  "fired i st = length (filter (answers i) (invoked st))"

text \<open>The validator promises not yet settled that hold a reply whose \<open>msg_id\<close> is \<open>i\<close>.\<close>

definition awaits :: "int \<Rightarrow> continuation \<Rightarrow> bool" where
  "awaits i c = (read_prop (c_reply c) ''msg_id'' = Inr (Some (JNum i)))"

definition awaited :: "int \<Rightarrow> gateway \<Rightarrow> nat" where
  "awaited i st = length (filter (awaits i) (validating st))"

definition pending :: "int \<Rightarrow> gateway \<Rightarrow> bool" where
  "pending i st = (map_of (outstandingRequests st) i \<noteq> None)"

subsection \<open>The handlers of \<^verbatim>\<open>GET /equipment/:id\<close> and \<^verbatim>\<open>GET /user/:id\<close>\<close>

text \<open>
  Of the express request a handler reads \<^verbatim>\<open>req.params\<close> and \<^verbatim>\<open>req.uemsUser.userID\<close>.
  A handler either answers itself or calls \<^verbatim>\<open>send(key, message, res, callback)\<close>.
  \<open>fresh\<close> is the result of \<^verbatim>\<open>MessageUtilities.generateMessageIdentifier()\<close> and \<open>cb\<close> the
  callback made by \<^verbatim>\<open>GenericHandlerFunctions.handleReadSingleResponseFactory\<close>; neither
  is under src/.
\<close>

record Request =
  params :: "(string \<times> string) list"
  userID :: string

datatype action =
    Responded Response int json
  | Sent string message Response RequestCallback

definition EQUIPMENT_READ_KEY :: string where
  "EQUIPMENT_READ_KEY = ''equipment.details.get''"

definition USER_READ_KEY :: string where
  "USER_READ_KEY = ''user.details.get''"

definition missing_parameter_id :: json where
  "missing_parameter_id =
     wrapInFailure (JObj [(''message'', JStr ''missing parameter id''),
                          (''code'', JStr ''BAD_REQUEST_MISSING_PARAM'')])"

definition getEquipmentHandler :: "int \<Rightarrow> RequestCallback \<Rightarrow> Request \<Rightarrow> Response \<Rightarrow> action" where
  "getEquipmentHandler fresh cb req res =
     (let outgoingMessage =
            \<lparr>msg_id = fresh,
             props = [(''msg_intention'', JStr ''READ''), (''status'', JNum 0),
                      (''userID'', JStr (userID req))]\<rparr>
      in case map_of (params req) ''id'' of
           None \<Rightarrow> Responded res 400 missing_parameter_id
         | Some i \<Rightarrow>
             Sent EQUIPMENT_READ_KEY
               (outgoingMessage\<lparr>props := AList.update ''id'' (JStr i) (props outgoingMessage)\<rparr>)
               res cb)"

definition getUserHandler :: "int \<Rightarrow> RequestCallback \<Rightarrow> Request \<Rightarrow> Response \<Rightarrow> action" where
  "getUserHandler fresh cb req res =
     (case map_of (params req) ''id'' of
        None \<Rightarrow> Responded res 400 missing_parameter_id
      | Some i \<Rightarrow>
          Sent USER_READ_KEY
            \<lparr>msg_id = fresh,
             props = [(''msg_intention'', JStr ''READ''), (''status'', JNum 0),
                      (''userID'', JStr (userID req))]\<rparr>
            res cb)"


subsection \<open>The completion callbacks\<close>


subsection \<open>Concrete inputs\<close>

text \<open>
  The inputs at which the theorems below are instantiated: a helper \<open>has\<close> that answers
  false on a value that is not an object, a callback that writes the reply as HTTP 200
  and does nothing else, and a configured gateway waiting for the reply to request 7.
\<close>

definition object_only :: "json \<Rightarrow> string \<Rightarrow> exn + bool" where
  "object_only j k = Inr False"

definition answer_ok :: RequestCallback where
  "answer_ok res ts reply status w = (None, respond res 200 reply w)"


definition accept_all :: MessageValidator where
  "accept_all j = Resolves True"

definition reject_all :: MessageValidator where
  "reject_all j = Resolves False"

definition broken_validator :: MessageValidator where
  "broken_validator j = Rejects"

definition world7 :: world where
  "world7 = \<lparr>allocated = {7}, http = []\<rparr>"

definition request7 :: PendingRequest where
  "request7 =
     \<lparr>uid = 7, response = 1, callback = answer_ok, timestamp = 1000,
      additionalValidator = None\<rparr>"

definition idle_resolver :: EntityResolver where
  "idle_resolver = \<lparr>awaiting = [], consumed = []\<rparr>"

definition configured :: gateway where
  "configured = (constructor world7)\<lparr>sendChannel := Some [], resolver := Some idle_resolver\<rparr>"

definition gateway7 :: gateway where
  "gateway7 = configured\<lparr>outstandingRequests := [(7, request7)]\<rparr>"

definition reply7 :: json where
  "reply7 = JObj [(''msg_id'', JNum 7), (''status'', JNum 0)]"

definition message7 :: message where
  "message7 =
     \<lparr>msg_id = 7,
      props = [(''msg_intention'', JStr ''READ''), (''status'', JNum 0), (''userID'', JStr ''u1'')]\<rparr>"

definition get_abc :: Request where
  "get_abc = \<lparr>params = [(''id'', ''abc'')], userID = ''u1''\<rparr>"

text \<open>
  A gateway with four pending requests: 7 is overdue at clock time 16500, 8 is then exactly
  15000 ms old, 9 and 10 are younger; 8, 9 and 10 carry a validator.
\<close>

definition request8 :: PendingRequest where
  "request8 =
     \<lparr>uid = 8, response = 2, callback = answer_ok, timestamp = 1500,
      additionalValidator = Some reject_all\<rparr>"

definition request9 :: PendingRequest where
  "request9 =
     \<lparr>uid = 9, response = 3, callback = answer_ok, timestamp = 9000,
      additionalValidator = Some accept_all\<rparr>"

definition request10 :: PendingRequest where
  "request10 =
     \<lparr>uid = 10, response = 4, callback = answer_ok, timestamp = 9500,
      additionalValidator = Some broken_validator\<rparr>"

definition busy :: gateway where
  "busy =
     configured
       \<lparr>outstandingRequests := [(7, request7), (8, request8), (9, request9), (10, request10)],
        world := \<lparr>allocated = {7, 8, 9, 10}, http = []\<rparr>\<rparr>"

definition reply_fields :: "int \<Rightarrow> (string \<times> json) list" where
  "reply_fields i = [(''msg_id'', JNum i), (''status'', JNum 0)]"





text \<open>A callback that throws after answering.\<close>

definition faulty :: RequestCallback where
  "faulty res ts reply status w = (Some (Error ''callback failed''), respond res 200 reply w)"


section \<open>Properties\<close>

subsection \<open>An unconfigured gateway\<close>

text \<open>
  C10. Before \<^verbatim>\<open>configure\<close> has set the send channel, \<open>publish\<close> throws the error
  "Gateway is not configured" instead of returning false, and so does \<open>sendRequest\<close>
  (whose record stays in the table); before a resolver is set, \<open>handleRawIncoming\<close>
  throws instead of dropping the frame, and leaves the state as it is.
\<close>

theorem unconfigured_gateway_throws:
  "(sendChannel st = None \<longrightarrow>
      publish st key data accepted =
        (Inl (Error ''Gateway is not configured, make sure you have called configure''), st)
    \<and> sendRequest st key m res cb v now accepted =
        (Inl (Error ''Gateway is not configured, make sure you have called configure''),
         remember st m res cb v now))
   \<and> (resolver st = None \<longrightarrow>
        handleRawIncoming other st frame =
          (Some (Error ''Gateway not configured properly, no resolver''), st))"
  by (simp add: publish_def sendRequest_def remember_def handleRawIncoming_def)

theorem unconfigured_gateway_throws_witness:
  "sendChannel (constructor world7) = None
   \<and> resolver (constructor world7) = None
   \<and> fst (publish (constructor world7) ''user.details.get'' message7 True) =
        Inl (Error ''Gateway is not configured, make sure you have called configure'')
   \<and> fst (sendRequest (constructor world7) ''user.details.get'' message7 1 answer_ok None 1000 True) =
        Inl (Error ''Gateway is not configured, make sure you have called configure'')
   \<and> handleRawIncoming object_only (constructor world7) (Some (Inr reply7)) =
        (Some (Error ''Gateway not configured properly, no resolver''), constructor world7)"
  using unconfigured_gateway_throws
    [of "constructor world7" "''user.details.get''" message7 True message7 1 answer_ok None 1000
        object_only "Some (Inr reply7)"]
  by (simp add: constructor_def)

subsection \<open>Sending a request\<close>

lemma remember_lookup:
  "map_of (outstandingRequests (remember st m res cb v now)) i =
     (if i = msg_id m
      then Some \<lparr>uid = msg_id m, response = res, callback = cb, timestamp = now,
                 additionalValidator = v\<rparr>
      else map_of (outstandingRequests st) i)"
  by (simp add: remember_def update_conv')

lemma remember_keys:
  "map fst (outstandingRequests (remember st m res cb v now)) =
     (if msg_id m \<in> set (map fst (outstandingRequests st))
      then map fst (outstandingRequests st)
      else map fst (outstandingRequests st) @ [msg_id m])"
  by (simp add: remember_def update_keys)

lemma publish_table:
  "outstandingRequests (snd (publish st key data accepted)) = outstandingRequests st"
  by (simp add: publish_def say_def Let_def split: option.splits)

lemma publish_configured:
  "sendChannel st = Some ch \<Longrightarrow>
     fst (publish st key data accepted) = Inr accepted
     \<and> sendChannel (snd (publish st key data accepted)) =
         Some (ch @ [(REQUEST_EXCHANGE, key, data)])"
  by (simp add: publish_def say_def Let_def)

text \<open>
  C1. \<open>sendRequest\<close> passes through two states, the one after the \<^verbatim>\<open>Map.set\<close> and the
  one after the \<^verbatim>\<open>publish\<close>. The record
  \<open>{uid = msg_id, response, callback, timestamp = now, validator}\<close> is in the table in both;
  in the first the channel is still as it was before the call, so nothing is published
  yet; in the second the message is the last frame on the channel. So in no state of the
  call is the message out while the record is missing.
\<close>

theorem record_inserted_before_publish:
  "sendRequest_states st key m res cb v now accepted =
     [remember st m res cb v now, snd (sendRequest st key m res cb v now accepted)]
   \<and> (\<forall>s \<in> set (sendRequest_states st key m res cb v now accepted).
         map_of (outstandingRequests s) (msg_id m) =
           Some \<lparr>uid = msg_id m, response = res, callback = cb, timestamp = now,
                 additionalValidator = v\<rparr>)
   \<and> sendChannel (hd (sendRequest_states st key m res cb v now accepted)) = sendChannel st
   \<and> (\<forall>ch. sendChannel st = Some ch \<longrightarrow>
         fst (sendRequest st key m res cb v now accepted) = Inr accepted
         \<and> sendChannel (last (sendRequest_states st key m res cb v now accepted)) =
             Some (ch @ [(REQUEST_EXCHANGE, key, m)]))"
proof -
  let ?s1 = "remember st m res cb v now"
  let ?s2 = "snd (sendRequest st key m res cb v now accepted)"
  have states: "sendRequest_states st key m res cb v now accepted = [?s1, ?s2]"
    by (simp add: sendRequest_states_def sendRequest_def Let_def)
  have ch: "sendChannel ?s1 = sendChannel st"
    by (simp add: remember_def)
  have tab: "outstandingRequests ?s2 = outstandingRequests ?s1"
    by (simp add: sendRequest_def publish_table)
  have out: "\<forall>ch. sendChannel st = Some ch \<longrightarrow>
      fst (sendRequest st key m res cb v now accepted) = Inr accepted
      \<and> sendChannel ?s2 = Some (ch @ [(REQUEST_EXCHANGE, key, m)])"
    using publish_configured [of ?s1 _ key m accepted] by (simp add: sendRequest_def ch)
  show ?thesis
    unfolding states using ch out by (simp add: tab remember_lookup)
qed

theorem record_inserted_before_publish_witness:
  "sendChannel configured = Some []
   \<and> map (\<lambda>s. (map_of (outstandingRequests s) 7, sendChannel s))
       (sendRequest_states configured USER_READ_KEY message7 1 answer_ok None 1000 True) =
       [(Some request7, Some []),
        (Some request7, Some [(REQUEST_EXCHANGE, USER_READ_KEY, message7)])]
   \<and> fst (sendRequest configured USER_READ_KEY message7 1 answer_ok None 1000 True) = Inr True"
proof -
  have ch: "sendChannel configured = Some []"
    by (simp add: configured_def)
  have id7: "msg_id message7 = 7"
    by (simp add: message7_def)
  show ?thesis
    using ch record_inserted_before_publish
      [of configured USER_READ_KEY message7 1 answer_ok None 1000 True]
    by (auto simp: id7 request7_def)
qed

text \<open>
  The order matters to this statement: had the publish run first, the gateway would pass
  through a state in which the message is out and the record is missing.
\<close>

lemma publish_first_leaves_gap:
  "sendChannel (snd (publish configured USER_READ_KEY message7 True)) =
     Some [(REQUEST_EXCHANGE, USER_READ_KEY, message7)]
   \<and> map_of (outstandingRequests (snd (publish configured USER_READ_KEY message7 True))) 7 = None"
  by (simp add: publish_def configured_def constructor_def say_def Let_def message7_def)

text \<open>
  C8, as the code has it. \<open>sendRequest\<close> does not look whether the id is pending:
  \<^verbatim>\<open>Map.set\<close> stores the new record under \<open>msg_id\<close>, in the place of the record that was
  there, and the call succeeds whenever the channel is set. Every other id keeps its
  record, and the table never holds two records under one id.
\<close>

theorem sendRequest_replaces_record:
  "(\<forall>ch. sendChannel st = Some ch \<longrightarrow>
       fst (sendRequest st key m res cb v now accepted) = Inr accepted)
   \<and> map_of (outstandingRequests (snd (sendRequest st key m res cb v now accepted))) (msg_id m) =
       Some \<lparr>uid = msg_id m, response = res, callback = cb, timestamp = now,
             additionalValidator = v\<rparr>
   \<and> (\<forall>i. i \<noteq> msg_id m \<longrightarrow>
         map_of (outstandingRequests (snd (sendRequest st key m res cb v now accepted))) i =
           map_of (outstandingRequests st) i)
   \<and> (pending (msg_id m) st \<longrightarrow>
         map fst (outstandingRequests (snd (sendRequest st key m res cb v now accepted))) =
           map fst (outstandingRequests st))
   \<and> (distinct (map fst (outstandingRequests st)) \<longrightarrow>
         distinct (map fst (outstandingRequests (snd (sendRequest st key m res cb v now accepted)))))"
proof -
  have tab: "outstandingRequests (snd (sendRequest st key m res cb v now accepted)) =
      outstandingRequests (remember st m res cb v now)"
    by (simp add: sendRequest_def publish_table)
  have ch: "sendChannel (remember st m res cb v now) = sendChannel st"
    by (simp add: remember_def)
  have ok: "\<forall>ch. sendChannel st = Some ch \<longrightarrow>
      fst (sendRequest st key m res cb v now accepted) = Inr accepted"
    using publish_configured [of "remember st m res cb v now" _ key m accepted]
    by (simp add: sendRequest_def ch)
  have keys: "pending (msg_id m) st \<longrightarrow>
      map fst (outstandingRequests (remember st m res cb v now)) =
        map fst (outstandingRequests st)"
    by (auto simp: remember_keys pending_def map_of_eq_None_iff)
  have dist: "distinct (map fst (outstandingRequests st)) \<longrightarrow>
      distinct (map fst (outstandingRequests (remember st m res cb v now)))"
    by (simp add: remember_def distinct_update)
  show ?thesis
    using ok keys dist by (simp add: tab remember_lookup)
qed

theorem sendRequest_replaces_record_witness:
  "sendChannel gateway7 = Some []
   \<and> pending 7 gateway7
   \<and> distinct (map fst (outstandingRequests gateway7))
   \<and> fst (sendRequest gateway7 USER_READ_KEY message7 2 answer_ok None 2000 True) = Inr True
   \<and> map_of (outstandingRequests
         (snd (sendRequest gateway7 USER_READ_KEY message7 2 answer_ok None 2000 True))) 7 =
       Some \<lparr>uid = 7, response = 2, callback = answer_ok, timestamp = 2000,
             additionalValidator = None\<rparr>
   \<and> map fst (outstandingRequests
         (snd (sendRequest gateway7 USER_READ_KEY message7 2 answer_ok None 2000 True))) = [7]"
  using sendRequest_replaces_record
    [of gateway7 USER_READ_KEY message7 2 answer_ok None 2000 True]
  by (simp add: gateway7_def configured_def constructor_def message7_def pending_def)

text \<open>
  C8, as the claim has it, fails: a second \<open>sendRequest\<close> for the pending id 7 succeeds,
  and the table then holds the second record only; the record with responder 1 is gone.
\<close>

theorem sendRequest_same_id_counterexample:
  "pending 7 gateway7
   \<and> map_of (outstandingRequests gateway7) 7 = Some request7
   \<and> fst (sendRequest gateway7 USER_READ_KEY message7 2 answer_ok None 2000 True) = Inr True
   \<and> outstandingRequests
       (snd (sendRequest gateway7 USER_READ_KEY message7 2 answer_ok None 2000 True)) =
       [(7, \<lparr>uid = 7, response = 2, callback = answer_ok, timestamp = 2000,
             additionalValidator = None\<rparr>)]"
  by (simp add: gateway7_def configured_def constructor_def message7_def pending_def
      sendRequest_def remember_def publish_def say_def Let_def)

subsection \<open>Frames that are not replies\<close>

lemma numeric_object:
  "numeric other (JObj fs) k =
     Inr (case map_of fs k of Some (JNum n) \<Rightarrow> Some n | _ \<Rightarrow> None)"
  by (simp add: numeric_def has_def read_prop_def split: option.splits json.splits)

lemma numeric_object_number:
  "map_of fs k = Some (JNum n) \<Longrightarrow> numeric other (JObj fs) k = Inr (Some n)"
  by (simp add: numeric_object)

lemma numeric_object_other:
  "\<forall>n. map_of fs k \<noteq> Some (JNum n) \<Longrightarrow> numeric other (JObj fs) k = Inr None"
  by (auto simp: numeric_object split: option.splits json.splits)

text \<open>
  C6, as the code has it. With a resolver set, a null frame, a payload that decodes to a
  value that is not an object, \<^verbatim>\<open>MessageUtilities.has\<close> answering false on it, and an object
  without a numeric \<open>msg_id\<close> or without a numeric \<open>status\<close> are rejected: a warning is logged,
  nothing else changes and nothing is raised. Nothing catches the SyntaxError of
  \<^verbatim>\<open>JSON.parse\<close>: for a payload that is not JSON it leaves the handler.
\<close>

theorem reply_handler_exceptions:
  assumes "resolver st = Some r"
  shows "handleRawIncoming other st (Some (Inl e)) = (Some e, st)
    \<and> handleRawIncoming other st None =
        (None, say Warn ''null message received, ignoring it'' [] st)
    \<and> ((\<forall>fs. j \<noteq> JObj fs) \<and> other j ''msg_id'' = Inr False \<longrightarrow>
         handleRawIncoming other st (Some (Inr j)) =
           (None, say Warn ''message was received without an ID. Ignoring'' [] st))
    \<and> ((\<forall>n. map_of fs ''msg_id'' \<noteq> Some (JNum n)) \<longrightarrow>
         handleRawIncoming other st (Some (Inr (JObj fs))) =
           (None, say Warn ''message was received without an ID. Ignoring'' [] st))
    \<and> (map_of gs ''msg_id'' = Some (JNum i) \<and> (\<forall>n. map_of gs ''status'' \<noteq> Some (JNum n)) \<longrightarrow>
         handleRawIncoming other st (Some (Inr (JObj gs))) =
           (None, say Warn ''message was received without a status. Ignoring'' [] st))"
proof -
  have a: "handleRawIncoming other st (Some (Inl e)) = (Some e, st)"
    using assms by (simp add: handleRawIncoming_def)
  have b: "handleRawIncoming other st None =
      (None, say Warn ''null message received, ignoring it'' [] st)"
    using assms by (simp add: handleRawIncoming_def)
  have c: "(\<forall>fs. j \<noteq> JObj fs) \<and> other j ''msg_id'' = Inr False \<longrightarrow>
      handleRawIncoming other st (Some (Inr j)) =
        (None, say Warn ''message was received without an ID. Ignoring'' [] st)"
  proof
    assume h: "(\<forall>fs. j \<noteq> JObj fs) \<and> other j ''msg_id'' = Inr False"
    then have "has other j ''msg_id'' = Inr False"
      by (cases j) (simp_all add: has_def)
    then have "numeric other j ''msg_id'' = Inr None"
      by (simp add: numeric_def)
    then show "handleRawIncoming other st (Some (Inr j)) =
        (None, say Warn ''message was received without an ID. Ignoring'' [] st)"
      using assms by (simp add: handleRawIncoming_def)
  qed
  have d: "(\<forall>n. map_of fs ''msg_id'' \<noteq> Some (JNum n)) \<longrightarrow>
      handleRawIncoming other st (Some (Inr (JObj fs))) =
        (None, say Warn ''message was received without an ID. Ignoring'' [] st)"
    using assms by (simp add: handleRawIncoming_def numeric_object_other)
  have e: "map_of gs ''msg_id'' = Some (JNum i) \<and> (\<forall>n. map_of gs ''status'' \<noteq> Some (JNum n)) \<longrightarrow>
      handleRawIncoming other st (Some (Inr (JObj gs))) =
        (None, say Warn ''message was received without a status. Ignoring'' [] st)"
    using assms by (simp add: handleRawIncoming_def numeric_object_other numeric_object_number)
  show ?thesis using a b c d e by blast
qed

theorem reply_handler_exceptions_witness:
  "resolver gateway7 = Some idle_resolver
   \<and> handleRawIncoming object_only gateway7 (Some (Inl SyntaxError)) = (Some SyntaxError, gateway7)
   \<and> handleRawIncoming object_only gateway7 None =
       (None, say Warn ''null message received, ignoring it'' [] gateway7)
   \<and> (\<forall>fs. JArr [JNum 7] \<noteq> JObj fs) \<and> object_only (JArr [JNum 7]) ''msg_id'' = Inr False
   \<and> handleRawIncoming object_only gateway7 (Some (Inr (JArr [JNum 7]))) =
       (None, say Warn ''message was received without an ID. Ignoring'' [] gateway7)
   \<and> (\<forall>n. map_of [(''status'', JNum 0)] ''msg_id'' \<noteq> Some (JNum n))
   \<and> handleRawIncoming object_only gateway7 (Some (Inr (JObj [(''status'', JNum 0)]))) =
       (None, say Warn ''message was received without an ID. Ignoring'' [] gateway7)
   \<and> map_of [(''msg_id'', JNum 7)] ''msg_id'' = Some (JNum 7)
   \<and> (\<forall>n. map_of [(''msg_id'', JNum 7)] ''status'' \<noteq> Some (JNum n))
   \<and> handleRawIncoming object_only gateway7 (Some (Inr (JObj [(''msg_id'', JNum 7)]))) =
       (None, say Warn ''message was received without a status. Ignoring'' [] gateway7)"
proof -
  have r: "resolver gateway7 = Some idle_resolver"
    by (simp add: gateway7_def configured_def)
  show ?thesis
    using r reply_handler_exceptions
      [OF r, of object_only SyntaxError "JArr [JNum 7]" "[(''status'', JNum 0)]"
          "[(''msg_id'', JNum 7)]" 7]
    by (simp add: object_only_def)
qed

text \<open>
  C6, as the claim has it, fails: a frame whose payload is not JSON makes the configured
  gateway's handler throw the SyntaxError.
\<close>

theorem unparsable_frame_counterexample:
  "handleRawIncoming object_only gateway7 (Some (Inl SyntaxError)) = (Some SyntaxError, gateway7)"
  by (simp add: handleRawIncoming_def gateway7_def configured_def)

subsection \<open>Fetching one entity\<close>

lemma getEquipmentHandler_sends_path_id:
  assumes "map_of (params req) ''id'' = Some i"
  shows "\<exists>m. getEquipmentHandler fresh cb req res = Sent EQUIPMENT_READ_KEY m res cb
            \<and> msg_id m = fresh \<and> map_of (props m) ''id'' = Some (JStr i)"
  using assms by (simp add: getEquipmentHandler_def Let_def update_conv')

lemma getUserHandler_never_sends_id:
  assumes "map_of (params req) ''id'' = Some i"
  shows "\<exists>m. getUserHandler fresh cb req res = Sent USER_READ_KEY m res cb
            \<and> msg_id m = fresh \<and> map_of (props m) ''id'' = None"
  using assms by (simp add: getUserHandler_def)

text \<open>
  C9 at \<^verbatim>\<open>GET /user/abc\<close>: the path parameter is there, and the message that
  \<open>getUserHandler\<close> sends to \<^verbatim>\<open>user.details.get\<close> has no \<open>id\<close>; the equipment handler, on
  the same request, sends \<open>id = "abc"\<close>.
\<close>

theorem getUserHandler_omits_path_id:
  "map_of (params get_abc) ''id'' = Some ''abc''
   \<and> getUserHandler 42 answer_ok get_abc 1 =
       Sent ''user.details.get''
         \<lparr>msg_id = 42,
          props = [(''msg_intention'', JStr ''READ''), (''status'', JNum 0),
                   (''userID'', JStr ''u1'')]\<rparr>
         1 answer_ok
   \<and> getEquipmentHandler 42 answer_ok get_abc 1 =
       Sent ''equipment.details.get''
         \<lparr>msg_id = 42,
          props = [(''msg_intention'', JStr ''READ''), (''status'', JNum 0),
                   (''userID'', JStr ''u1''), (''id'', JStr ''abc'')]\<rparr>
         1 answer_ok"
  by (simp add: getUserHandler_def getEquipmentHandler_def get_abc_def USER_READ_KEY_def
      EQUIPMENT_READ_KEY_def)

subsection \<open>What each operation touches\<close>

lemma say_fields [simp]:
  "sendChannel (say l t a st) = sendChannel st"
  "resolver (say l t a st) = resolver st"
  "outstandingRequests (say l t a st) = outstandingRequests st"
  "world (say l t a st) = world st"
  "validating (say l t a st) = validating st"
  "invoked (say l t a st) = invoked st"
  "logged (say l t a st) = logged st @ [(l, t, a)]"
  by (simp_all add: say_def)

lemma pending_say [simp]: "pending i (say l t a st) = pending i st"
  by (simp add: pending_def)

lemma fired_say [simp]: "fired i (say l t a st) = fired i st"
  by (simp add: fired_def)

lemma awaited_say [simp]: "awaited i (say l t a st) = awaited i st"
  by (simp add: awaited_def)

lemma expire_fields:
  "sendChannel (expire text key entry st) = sendChannel st"
  "resolver (expire text key entry st) = resolver st"
  "outstandingRequests (expire text key entry st) = AList.delete key (outstandingRequests st)"
  "world (expire text key entry st) =
     identifierConsumed (uid entry)
       (respond (response entry) 504 (wrapInFailure (SERVICE_TIMEOUT text)) (world st))"
  "validating (expire text key entry st) = validating st"
  "invoked (expire text key entry st) = invoked st"
  "logged (expire text key entry st) =
     logged st @ [(Debug, ''terminating request'', [uid entry, timestamp entry])]"
  by (simp_all add: expire_def Let_def)

lemma complete_fields:
  "fst (complete request j status st) =
     fst (callback request (response request) (timestamp request) j status (world st))"
  "sendChannel (snd (complete request j status st)) = sendChannel st"
  "resolver (snd (complete request j status st)) = resolver st"
  "outstandingRequests (snd (complete request j status st)) = outstandingRequests st"
  "validating (snd (complete request j status st)) = validating st"
  "world (snd (complete request j status st)) =
     snd (callback request (response request) (timestamp request) j status (world st))"
  "invoked (snd (complete request j status st)) =
     invoked st @ [\<lparr>inv_http = response request, inv_timestamp = timestamp request,
                     inv_response = j, inv_status = status\<rparr>]"
  "logged (snd (complete request j status st)) = logged st"
  by (simp_all add: complete_def case_prod_unfold Let_def)

subsection \<open>The sweep\<close>

lemma loop_frame:
  "sendChannel (terminate_loop text now ks st) = sendChannel st
   \<and> resolver (terminate_loop text now ks st) = resolver st
   \<and> validating (terminate_loop text now ks st) = validating st
   \<and> invoked (terminate_loop text now ks st) = invoked st"
  by (induction ks arbitrary: st) (simp_all add: expire_fields split: option.splits)

lemma key_entry:
  assumes "distinct (map fst T)" and "map_of T k = Some e" and "p \<in> set T" and "fst p = k"
  shows "snd p = e"
proof -
  have "map_of T (fst p) = Some (snd p)"
    using assms(1,3) by (intro map_of_is_SomeI) simp_all
  then show ?thesis using assms(2,4) by simp
qed

lemma loop_table:
  assumes "distinct (map fst (outstandingRequests st))"
  shows "outstandingRequests (terminate_loop text now ks st) =
     filter (\<lambda>p. \<not> (fst p \<in> set ks \<and> overdue now (snd p))) (outstandingRequests st)"
  using assms
proof (induction ks arbitrary: st)
  case Nil
  then show ?case by simp
next
  case (Cons k ks)
  let ?T = "outstandingRequests st"
  show ?case
  proof (cases "map_of ?T k")
    case None
    then have "\<forall>p \<in> set ?T. fst p \<noteq> k"
      by (auto simp: map_of_eq_None_iff)
    then have "filter (\<lambda>p. \<not> (fst p \<in> set (k # ks) \<and> overdue now (snd p))) ?T =
        filter (\<lambda>p. \<not> (fst p \<in> set ks \<and> overdue now (snd p))) ?T"
      by (intro filter_cong) auto
    then show ?thesis using None Cons by simp
  next
    case (Some e)
    show ?thesis
    proof (cases "overdue now e")
      case False
      have "\<forall>p \<in> set ?T. fst p = k \<longrightarrow> \<not> overdue now (snd p)"
        using key_entry [OF Cons.prems Some] False by blast
      then have "filter (\<lambda>p. \<not> (fst p \<in> set (k # ks) \<and> overdue now (snd p))) ?T =
          filter (\<lambda>p. \<not> (fst p \<in> set ks \<and> overdue now (snd p))) ?T"
        by (intro filter_cong) auto
      then show ?thesis using Some False Cons by simp
    next
      case True
      let ?st = "expire text k e st"
      have tab: "outstandingRequests ?st = filter (\<lambda>p. fst p \<noteq> k) ?T"
        by (simp add: expire_fields AList.delete_eq case_prod_unfold eq_commute)
      have dist: "distinct (map fst (outstandingRequests ?st))"
        using Cons.prems by (simp add: expire_fields distinct_delete)
      have all: "\<forall>p \<in> set ?T. fst p = k \<longrightarrow> overdue now (snd p)"
        using key_entry [OF Cons.prems Some] True by blast
      have "outstandingRequests (terminate_loop text now ks ?st) =
          filter (\<lambda>p. \<not> (fst p \<in> set ks \<and> overdue now (snd p))) (filter (\<lambda>p. fst p \<noteq> k) ?T)"
        using Cons.IH [OF dist] by (simp add: tab)
      also have "\<dots> = filter (\<lambda>p. \<not> (fst p \<in> set (k # ks) \<and> overdue now (snd p))) ?T"
        unfolding filter_filter using all by (intro filter_cong) auto
      finally show ?thesis using Some True by simp
    qed
  qed
qed

text \<open>The overdue records that the loop meets on the keys \<open>ks\<close>, read in the table \<open>T\<close>.\<close>

lemma loop_world:
  assumes "distinct ks"
  shows "world (terminate_loop text now ks st) =
     fold (\<lambda>e w. identifierConsumed (uid e)
                   (respond (response e) 504 (wrapInFailure (SERVICE_TIMEOUT text)) w))
       (concat (map (\<lambda>k. case map_of (outstandingRequests st) k of
                            None \<Rightarrow> [] | Some e \<Rightarrow> if overdue now e then [e] else []) ks))
       (world st)"
  using assms
proof (induction ks arbitrary: st)
  case Nil
  then show ?case by simp
next
  case (Cons k ks)
  let ?T = "outstandingRequests st"
  let ?pick = "\<lambda>T k. case map_of T k of
                  None \<Rightarrow> [] | Some e \<Rightarrow> if overdue now e then [e] else []"
  have dk: "distinct ks" and nk: "k \<notin> set ks"
    using Cons.prems by simp_all
  show ?case
  proof (cases "\<exists>e. map_of ?T k = Some e \<and> overdue now e")
    case False
    then have pick: "?pick ?T k = []"
      by (auto split: option.splits)
    have same: "(case map_of ?T k of None \<Rightarrow> st
        | Some entry \<Rightarrow> if overdue now entry then expire text k entry st else st) = st"
      using False by (auto split: option.splits)
    show ?thesis
      using Cons.IH [OF dk, of st] pick same by simp
  next
    case True
    then obtain e where e: "map_of ?T k = Some e" "overdue now e"
      by blast
    let ?st = "expire text k e st"
    have "\<forall>x \<in> set ks. x \<noteq> k"
      using nk by auto
    then have "concat (map (?pick (outstandingRequests ?st)) ks) = concat (map (?pick ?T) ks)"
      by (intro arg_cong [where f = concat] map_cong) (simp_all add: expire_fields)
    then have "world (terminate_loop text now ks ?st) =
        fold (\<lambda>e w. identifierConsumed (uid e)
                      (respond (response e) 504 (wrapInFailure (SERVICE_TIMEOUT text)) w))
          (concat (map (?pick ?T) ks)) (world ?st)"
      using Cons.IH [OF dk, of ?st] by simp
    then show ?thesis
      using e by (simp add: expire_fields)
  qed
qed

lemma overdue_in_order:
  assumes "distinct (map fst T)"
  shows "concat (map (\<lambda>k. case map_of T k of
                             None \<Rightarrow> [] | Some e \<Rightarrow> if overdue now e then [e] else [])
                     (map fst T)) =
         map snd (filter (\<lambda>p. overdue now (snd p)) T)"
proof -
  have found: "\<forall>p \<in> set T. map_of T (fst p) = Some (snd p)"
    using assms by (auto intro!: map_of_is_SomeI)
  have "concat (map (\<lambda>p. case map_of T (fst p) of
                    None \<Rightarrow> [] | Some e \<Rightarrow> if overdue now e then [e] else []) T) =
        concat (map (\<lambda>p. if overdue now (snd p) then [snd p] else []) T)"
    using found by (intro arg_cong [where f = concat] map_cong) auto
  also have "\<dots> = map snd (filter (\<lambda>p. overdue now (snd p)) T)"
    by (induction T) simp_all
  finally show ?thesis by (simp add: comp_def)
qed

lemma fold_timeouts:
  "http (fold (\<lambda>e w. identifierConsumed (uid e) (respond (response e) 504 body w)) es w) =
     http w @ map (\<lambda>e. (response e, 504, body)) es
   \<and> allocated (fold (\<lambda>e w. identifierConsumed (uid e) (respond (response e) 504 body w)) es w) =
     allocated w - uid ` set es"
  by (induction es arbitrary: w) (auto simp: identifierConsumed_def respond_def)

lemma terminateTimedOut_world:
  assumes "distinct (map fst (outstandingRequests st))"
  shows "world (terminateTimedOut text st now) =
     fold (\<lambda>e w. identifierConsumed (uid e)
                   (respond (response e) 504 (wrapInFailure (SERVICE_TIMEOUT text)) w))
       (map snd (filter (\<lambda>p. overdue now (snd p)) (outstandingRequests st))) (world st)"
  using loop_world [OF assms, of "text" now st] overdue_in_order [OF assms, of now]
  by (simp add: terminateTimedOut_def)

lemma terminateTimedOut_table:
  assumes "distinct (map fst (outstandingRequests st))"
  shows "outstandingRequests (terminateTimedOut text st now) =
     filter (\<lambda>p. \<not> overdue now (snd p)) (outstandingRequests st)"
proof -
  have "filter (\<lambda>p. \<not> (fst p \<in> set (map fst (outstandingRequests st)) \<and> overdue now (snd p)))
          (outstandingRequests st) =
        filter (\<lambda>p. \<not> overdue now (snd p)) (outstandingRequests st)"
    by (intro filter_cong) auto
  then show ?thesis
    using loop_table [OF assms, of "text" now "map fst (outstandingRequests st)"]
    by (simp add: terminateTimedOut_def)
qed

text \<open>
  C2. The constructor schedules the terminator every 2000 ms. One run of it at clock
  time \<open>now\<close> removes from the table exactly the records with
  \<open>now - timestamp > 15000\<close> and keeps the others as they are, in their order; it writes, for
  each removed record and in table order, status 504 with the failure envelope of code
  \<open>SERVICE_TIMEOUT\<close> to the record's responder, and writes nothing else; it releases the
  identifiers of the removed records and no other; it invokes no callback.
\<close>

theorem terminator_times_out_overdue_records:
  assumes "distinct (map fst (outstandingRequests st))"
  shows "terminatorInterval (constructor w) = 2000
    \<and> outstandingRequests (terminateTimedOut text st now) =
        filter (\<lambda>(key, entry). \<not> now - timestamp entry > 15000) (outstandingRequests st)
    \<and> http (world (terminateTimedOut text st now)) =
        http (world st) @
        map (\<lambda>(key, entry).
               (response entry, 504,
                JObj [(''status'', JStr ''FAIL''),
                      (''error'', JObj [(''message'', JStr text),
                                        (''code'', JStr ''SERVICE_TIMEOUT'')])]))
          (filter (\<lambda>(key, entry). now - timestamp entry > 15000) (outstandingRequests st))
    \<and> allocated (world (terminateTimedOut text st now)) =
        allocated (world st) -
        set (map (\<lambda>(key, entry). uid entry)
               (filter (\<lambda>(key, entry). now - timestamp entry > 15000) (outstandingRequests st)))
    \<and> invoked (terminateTimedOut text st now) = invoked st"
proof -
  let ?T = "outstandingRequests st"
  have a: "terminatorInterval (constructor w) = 2000"
    by (simp add: constructor_def)
  have b: "outstandingRequests (terminateTimedOut text st now) =
      filter (\<lambda>(key, entry). \<not> now - timestamp entry > 15000) ?T"
    using terminateTimedOut_table [OF assms, of "text" now]
    by (simp add: overdue_def case_prod_unfold)
  have c: "http (world (terminateTimedOut text st now)) =
      http (world st) @
      map (\<lambda>(key, entry).
             (response entry, 504,
              JObj [(''status'', JStr ''FAIL''),
                    (''error'', JObj [(''message'', JStr text),
                                      (''code'', JStr ''SERVICE_TIMEOUT'')])]))
        (filter (\<lambda>(key, entry). now - timestamp entry > 15000) ?T)"
    using terminateTimedOut_world [OF assms, of "text" now]
    by (simp add: fold_timeouts overdue_def case_prod_unfold wrapInFailure_def
        SERVICE_TIMEOUT_def comp_def)
  have "uid ` set (map snd (filter (\<lambda>p. overdue now (snd p)) ?T)) =
      set (map (\<lambda>(key, entry). uid entry)
             (filter (\<lambda>(key, entry). now - timestamp entry > 15000) ?T))"
    by (simp add: overdue_def case_prod_unfold image_image)
  then have d: "allocated (world (terminateTimedOut text st now)) =
      allocated (world st) -
      set (map (\<lambda>(key, entry). uid entry)
             (filter (\<lambda>(key, entry). now - timestamp entry > 15000) ?T))"
    using terminateTimedOut_world [OF assms, of "text" now]
    by (simp only: fold_timeouts)
  have e: "invoked (terminateTimedOut text st now) = invoked st"
    by (simp add: terminateTimedOut_def loop_frame)
  show ?thesis using a b c d e by blast
qed

theorem terminator_times_out_overdue_records_witness:
  "distinct (map fst (outstandingRequests busy))
   \<and> map fst (outstandingRequests (terminateTimedOut ''timed out'' busy 16500)) = [8, 9, 10]
   \<and> http (world (terminateTimedOut ''timed out'' busy 16500)) =
       [(1, 504, JObj [(''status'', JStr ''FAIL''),
                       (''error'', JObj [(''message'', JStr ''timed out''),
                                         (''code'', JStr ''SERVICE_TIMEOUT'')])])]
   \<and> allocated (world (terminateTimedOut ''timed out'' busy 16500)) = {8, 9, 10}"
proof -
  have d: "distinct (map fst (outstandingRequests busy))"
    by (simp add: busy_def)
  show ?thesis
    using d terminator_times_out_overdue_records [OF d, of world7 "''timed out''" 16500]
    by (auto simp: busy_def request7_def request8_def request9_def request10_def)
qed

subsection \<open>The reply handler, case by case\<close>

lemma numeric_reads:
  assumes "numeric other j k = Inr (Some n)"
  shows "read_prop j k = Inr (Some (JNum n))"
  using assms
  by (simp add: numeric_def split: sum.splits bool.splits option.splits json.splits)

lemma handle_reply:
  assumes "resolver st = Some r"
    and "map_of fs ''msg_id'' = Some (JNum mid)"
    and "map_of fs ''status'' = Some (JNum status)"
  shows "handleRawIncoming other st (Some (Inr (JObj fs))) = dispatch r (JObj fs) mid status st"
  using assms by (simp add: handleRawIncoming_def numeric_object_number)

lemma handle_cases:
  "snd (handleRawIncoming other st m) = st
   \<or> (\<exists>l t a. snd (handleRawIncoming other st m) = say l t a st)
   \<or> (\<exists>r j mid status. read_prop j ''msg_id'' = Inr (Some (JNum mid))
         \<and> snd (handleRawIncoming other st m) = snd (dispatch r j mid status st))"
proof (cases "resolver st")
  case None
  then show ?thesis by (simp add: handleRawIncoming_def)
next
  case (Some r)
  show ?thesis
  proof (cases m)
    case None
    then have "snd (handleRawIncoming other st m) =
        say Warn ''null message received, ignoring it'' [] st"
      using Some by (simp add: handleRawIncoming_def)
    then show ?thesis by blast
  next
    case frame: (Some frame)
    show ?thesis
    proof (cases frame)
      case (Inl e)
      then show ?thesis using Some frame by (simp add: handleRawIncoming_def)
    next
      case (Inr j)
      show ?thesis
      proof (cases "numeric other j ''msg_id''")
        case (Inl e)
        then show ?thesis using Some frame Inr by (simp add: handleRawIncoming_def)
      next
        case found: (Inr found)
        show ?thesis
        proof (cases found)
          case None
          then have "snd (handleRawIncoming other st m) =
              say Warn ''message was received without an ID. Ignoring'' [] st"
            using Some frame Inr found by (simp add: handleRawIncoming_def)
          then show ?thesis by blast
        next
          case mid: (Some mid)
          have rd: "read_prop j ''msg_id'' = Inr (Some (JNum mid))"
            using found mid by (intro numeric_reads) simp
          show ?thesis
          proof (cases "numeric other j ''status''")
            case (Inl e)
            then show ?thesis
              using Some frame Inr found mid by (simp add: handleRawIncoming_def)
          next
            case seen: (Inr seen)
            show ?thesis
            proof (cases seen)
              case None
              then have "snd (handleRawIncoming other st m) =
                  say Warn ''message was received without a status. Ignoring'' [] st"
                using Some frame Inr found mid seen by (simp add: handleRawIncoming_def)
              then show ?thesis by blast
            next
              case (Some status)
              then have "snd (handleRawIncoming other st m) = snd (dispatch r j mid status st)"
                using \<open>resolver st = Some r\<close> frame Inr found mid seen
                by (simp add: handleRawIncoming_def)
              then show ?thesis using rd by blast
            qed
          qed
        qed
      qed
    qed
  qed
qed

lemma dispatch_intercepted:
  assumes "intercept r mid"
  shows "dispatch r j mid status st =
     (None,
      (say Debug ''incoming message'' [mid, status] st)
        \<lparr>world := identifierConsumed mid (world st), resolver := Some (consume r mid j)\<rparr>)"
  using assms by (simp add: dispatch_def Let_def)

lemma dispatch_unmatched:
  assumes "\<not> intercept r mid" and "map_of (outstandingRequests st) mid = None"
  shows "dispatch r j mid status st =
     (None,
      say Warn ''message was received that did not match a pending request. has it already timed out?''
        [mid] (say Debug ''incoming message'' [mid, status] st))"
  using assms by (simp add: dispatch_def Let_def)

lemma dispatch_direct:
  assumes "\<not> intercept r mid" and "map_of (outstandingRequests st) mid = Some request"
    and "additionalValidator request = None"
  shows "dispatch r j mid status st =
     complete request j status
       ((say Debug ''incoming message'' [mid, status] st)
          \<lparr>outstandingRequests := AList.delete mid (outstandingRequests st)\<rparr>)"
  using assms by (simp add: dispatch_def Let_def)

lemma dispatch_validating:
  assumes "\<not> intercept r mid" and "map_of (outstandingRequests st) mid = Some request"
    and "additionalValidator request = Some v"
  shows "dispatch r j mid status st =
     (None,
      (say Debug ''incoming message'' [mid, status] st)
        \<lparr>outstandingRequests := AList.delete mid (outstandingRequests st),
         validating := validating st @
           [\<lparr>c_request = request, c_reply = j, c_status = status, c_outcome = v j\<rparr>]\<rparr>)"
  using assms by (simp add: dispatch_def Let_def)

lemma dispatch_matched_frame:
  assumes "\<not> intercept r mid" and "map_of (outstandingRequests st) mid = Some request"
  shows "resolver (snd (dispatch r j mid status st)) = resolver st
    \<and> sendChannel (snd (dispatch r j mid status st)) = sendChannel st
    \<and> outstandingRequests (snd (dispatch r j mid status st)) =
        AList.delete mid (outstandingRequests st)"
proof (cases "additionalValidator request")
  case None
  show ?thesis
    by (simp add: dispatch_direct [OF assms None] complete_fields)
next
  case (Some v)
  show ?thesis
    by (simp add: dispatch_validating [OF assms Some])
qed

subsection \<open>Counting invocations\<close>

text \<open>
  What is still owed to the id \<open>i\<close>: the invocations made, one more if a record is pending
  under \<open>i\<close>, and one more for each validator promise that holds a reply to \<open>i\<close>. No turn of
  the event loop makes it grow.
\<close>

lemma dispatch_potential:
  assumes "read_prop j ''msg_id'' = Inr (Some (JNum mid))"
  shows "fired i (snd (dispatch r j mid status st))
           + (if pending i (snd (dispatch r j mid status st)) then 1 else 0)
           + awaited i (snd (dispatch r j mid status st))
       \<le> fired i st + (if pending i st then 1 else 0) + awaited i st"
proof (cases "intercept r mid")
  case True
  then show ?thesis
    by (simp add: dispatch_intercepted fired_def pending_def awaited_def)
next
  case False
  show ?thesis
  proof (cases "map_of (outstandingRequests st) mid")
    case None
    then show ?thesis using False by (simp add: dispatch_unmatched)
  next
    case (Some request)
    have ans: "answers i \<lparr>inv_http = response request, inv_timestamp = timestamp request,
                          inv_response = j, inv_status = status\<rparr> = (i = mid)"
      using assms by (auto simp: answers_def)
    have aw: "awaits i \<lparr>c_request = request, c_reply = j, c_status = status, c_outcome = out\<rparr>
                = (i = mid)" for out
      using assms by (auto simp: awaits_def)
    show ?thesis
    proof (cases "additionalValidator request")
      case None
      show ?thesis
        using Some
        by (auto simp: dispatch_direct [OF False Some None] fired_def pending_def awaited_def
            complete_fields ans delete_conv')
    next
      case v: (Some v)
      show ?thesis
        using Some
        by (auto simp: dispatch_validating [OF False Some v] fired_def pending_def awaited_def
            aw delete_conv')
    qed
  qed
qed

lemma dispatch_fired_mono: "fired i st \<le> fired i (snd (dispatch r j mid status st))"
  by (simp add: dispatch_def Let_def fired_def complete_fields split: option.splits)

lemma count_without:
  assumes "n < length xs"
  shows "length (filter P xs) =
     length (filter P (take n xs @ drop (Suc n) xs)) + (if P (xs ! n) then 1 else 0)"
proof -
  have "xs = take n xs @ xs ! n # drop (Suc n) xs"
    using assms by (rule id_take_nth_drop)
  then have "length (filter P xs) = length (filter P (take n xs @ xs ! n # drop (Suc n) xs))"
    by simp
  then show ?thesis by simp
qed

lemma settle_frame:
  "sendChannel (settle n st) = sendChannel st
   \<and> resolver (settle n st) = resolver st
   \<and> outstandingRequests (settle n st) = outstandingRequests st"
  by (simp add: settle_def Let_def complete_fields case_prod_unfold
      split: validation.splits bool.splits option.splits)

lemma settle_potential:
  "fired i (settle n st) + (if pending i (settle n st) then 1 else 0) + awaited i (settle n st)
     \<le> fired i st + (if pending i st then 1 else 0) + awaited i st"
proof (cases "n < length (validating st)")
  case False
  then show ?thesis by (simp add: settle_def)
next
  case True
  let ?c = "validating st ! n"
  let ?rest = "take n (validating st) @ drop (Suc n) (validating st)"
  have p: "pending i (settle n st) = pending i st"
    using settle_frame [of n st] by (simp add: pending_def)
  have aw: "awaited i st = length (filter (awaits i) ?rest) + (if awaits i ?c then 1 else 0)"
    unfolding awaited_def by (rule count_without [OF True])
  have ans: "answers i \<lparr>inv_http = response (c_request ?c), inv_timestamp = timestamp (c_request ?c),
                        inv_response = c_reply ?c, inv_status = c_status ?c\<rparr> = awaits i ?c"
    by (simp add: answers_def awaits_def)
  have "fired i (settle n st) + awaited i (settle n st) \<le> fired i st + awaited i st"
    using True aw ans
    by (simp add: settle_def Let_def complete_fields case_prod_unfold fired_def awaited_def
        split: validation.splits bool.splits option.splits)
  then show ?thesis using p by simp
qed

lemma settle_fired_mono: "fired i st \<le> fired i (settle n st)"
  by (simp add: settle_def Let_def complete_fields case_prod_unfold fired_def
      split: validation.splits bool.splits option.splits)

lemma loop_not_pending:
  assumes "\<not> pending i st"
  shows "\<not> pending i (terminate_loop text now ks st)"
  using assms
proof (induction ks arbitrary: st)
  case Nil
  then show ?case by simp
next
  case (Cons k ks)
  have "\<not> pending i (expire text k e st)" for e
    using Cons.prems by (simp add: pending_def expire_fields delete_conv')
  then show ?case
    using Cons by (simp split: option.splits)
qed

lemma loop_pending_subset:
  assumes "pending i (terminate_loop text now ks st)"
  shows "pending i st"
  using assms loop_not_pending by blast

lemma step_potential:
  "fired i (step other text ev st) + (if pending i (step other text ev st) then 1 else 0)
       + awaited i (step other text ev st)
     \<le> fired i st + (if pending i st then 1 else 0) + awaited i st"
proof (cases ev)
  case (Incoming m)
  then have st': "step other text ev st = snd (handleRawIncoming other st m)"
    by (simp add: step_def)
  from handle_cases [of other st m] show ?thesis
  proof (elim disjE)
    assume "snd (handleRawIncoming other st m) = st"
    then show ?thesis unfolding st' by simp
  next
    assume "\<exists>l t a. snd (handleRawIncoming other st m) = say l t a st"
    then show ?thesis unfolding st' by auto
  next
    assume "\<exists>r j mid status. read_prop j ''msg_id'' = Inr (Some (JNum mid))
              \<and> snd (handleRawIncoming other st m) = snd (dispatch r j mid status st)"
    then obtain r j mid status where rd: "read_prop j ''msg_id'' = Inr (Some (JNum mid))"
      and eq: "snd (handleRawIncoming other st m) = snd (dispatch r j mid status st)"
      by blast
    show ?thesis unfolding st' eq by (rule dispatch_potential [OF rd])
  qed
next
  case (Tick now)
  have f: "fired i (terminateTimedOut text st now) = fired i st"
    by (simp add: fired_def terminateTimedOut_def loop_frame)
  have a: "awaited i (terminateTimedOut text st now) = awaited i st"
    by (simp add: awaited_def terminateTimedOut_def loop_frame)
  have p: "pending i (terminateTimedOut text st now) \<longrightarrow> pending i st"
    using loop_pending_subset by (auto simp: terminateTimedOut_def)
  show ?thesis using Tick f a p by (simp add: step_def)
next
  case (Settle n)
  then show ?thesis using settle_potential [of i n st] by (simp add: step_def)
qed

lemma step_fired_mono: "fired i st \<le> fired i (step other text ev st)"
proof (cases ev)
  case (Incoming m)
  then have st': "step other text ev st = snd (handleRawIncoming other st m)"
    by (simp add: step_def)
  from handle_cases [of other st m] show ?thesis
    unfolding st' using dispatch_fired_mono by (elim disjE) auto
next
  case (Tick now)
  then show ?thesis
    by (simp add: step_def fired_def terminateTimedOut_def loop_frame)
next
  case (Settle n)
  then show ?thesis using settle_fired_mono by (simp add: step_def)
qed

lemma run_potential:
  "fired i (run other text evs st) + (if pending i (run other text evs st) then 1 else 0)
       + awaited i (run other text evs st)
     \<le> fired i st + (if pending i st then 1 else 0) + awaited i st"
proof (induction evs arbitrary: st)
  case Nil
  then show ?case by simp
next
  case (Cons ev evs)
  let ?st = "step other text ev st"
  have "fired i (run other text evs ?st) + (if pending i (run other text evs ?st) then 1 else 0)
          + awaited i (run other text evs ?st)
        \<le> fired i ?st + (if pending i ?st then 1 else 0) + awaited i ?st"
    by (rule Cons.IH)
  also have "\<dots> \<le> fired i st + (if pending i st then 1 else 0) + awaited i st"
    by (rule step_potential)
  finally show ?case by simp
qed

lemma run_fired_mono: "fired i st \<le> fired i (run other text evs st)"
proof (induction evs arbitrary: st)
  case Nil
  then show ?case by simp
next
  case (Cons ev evs)
  have "fired i st \<le> fired i (step other text ev st)"
    by (rule step_fired_mono)
  also have "\<dots> \<le> fired i (run other text evs (step other text ev st))"
    by (rule Cons.IH)
  finally show ?case by simp
qed

lemma run_bound:
  "fired i (run other text evs st) \<le> fired i st + (if pending i st then 1 else 0) + awaited i st"
proof -
  have "fired i (run other text evs st)
      \<le> fired i (run other text evs st) + (if pending i (run other text evs st) then 1 else 0)
          + awaited i (run other text evs st)"
    by simp
  also have "\<dots> \<le> fired i st + (if pending i st then 1 else 0) + awaited i st"
    by (rule run_potential)
  finally show ?thesis .
qed

lemma never_fires:
  assumes "\<not> pending i st" and "awaited i st = 0"
  shows "fired i (run other text evs st) = fired i st"
  using run_bound [of i other "text" evs st] run_fired_mono [of i st other "text" evs] assms
  by simp

text \<open>
  C3. Whatever frames arrive, whenever the terminator runs and whenever validator
  promises settle, the callbacks invoked for replies to the id \<open>i\<close> grow by at most one for
  the record pending under \<open>i\<close> and one for each reply to \<open>i\<close> still held by a validator
  promise; with no such promise, by at most one, and by none if no record is pending. The
  reason: a matched reply deletes the record in the handler, before the validator has
  answered and before the callback runs; when the record has a validator the callback has
  not run yet as the handler returns, and the same reply, arriving again before it does,
  matches nothing and is dropped with the warning.
\<close>

theorem callback_fires_at_most_once:
  "fired i (run other text evs st) \<le> fired i st + (if pending i st then 1 else 0) + awaited i st
   \<and> (resolver st = Some r \<and> \<not> intercept r i \<and> map_of (outstandingRequests st) i = Some request
       \<and> map_of fs ''msg_id'' = Some (JNum i) \<and> map_of fs ''status'' = Some (JNum status) \<longrightarrow>
       \<not> pending i (snd (handleRawIncoming other st (Some (Inr (JObj fs)))))
       \<and> (additionalValidator request \<noteq> None \<longrightarrow>
            fst (handleRawIncoming other st (Some (Inr (JObj fs)))) = None
            \<and> invoked (snd (handleRawIncoming other st (Some (Inr (JObj fs))))) = invoked st
            \<and> awaited i (snd (handleRawIncoming other st (Some (Inr (JObj fs))))) =
                Suc (awaited i st))
       \<and> handleRawIncoming other (snd (handleRawIncoming other st (Some (Inr (JObj fs)))))
           (Some (Inr (JObj fs))) =
           (None,
            say Warn
              ''message was received that did not match a pending request. has it already timed out?''
              [i] (say Debug ''incoming message'' [i, status]
                     (snd (handleRawIncoming other st (Some (Inr (JObj fs))))))))"
proof -
  have bound: "fired i (run other text evs st)
      \<le> fired i st + (if pending i st then 1 else 0) + awaited i st"
    by (rule run_bound)
  have twice: "\<not> pending i (snd (handleRawIncoming other st (Some (Inr (JObj fs)))))
       \<and> (additionalValidator request \<noteq> None \<longrightarrow>
            fst (handleRawIncoming other st (Some (Inr (JObj fs)))) = None
            \<and> invoked (snd (handleRawIncoming other st (Some (Inr (JObj fs))))) = invoked st
            \<and> awaited i (snd (handleRawIncoming other st (Some (Inr (JObj fs))))) =
                Suc (awaited i st))
       \<and> handleRawIncoming other (snd (handleRawIncoming other st (Some (Inr (JObj fs)))))
           (Some (Inr (JObj fs))) =
           (None,
            say Warn
              ''message was received that did not match a pending request. has it already timed out?''
              [i] (say Debug ''incoming message'' [i, status]
                     (snd (handleRawIncoming other st (Some (Inr (JObj fs)))))))"
    if r: "resolver st = Some r" and ni: "\<not> intercept r i"
      and req: "map_of (outstandingRequests st) i = Some request"
      and m: "map_of fs ''msg_id'' = Some (JNum i)" and s: "map_of fs ''status'' = Some (JNum status)"
  proof -
    let ?st' = "snd (dispatch r (JObj fs) i status st)"
    have first: "handleRawIncoming other st (Some (Inr (JObj fs))) = dispatch r (JObj fs) i status st"
      by (rule handle_reply [OF r m s])
    have fr: "resolver ?st' = Some r"
      "outstandingRequests ?st' = AList.delete i (outstandingRequests st)"
      using dispatch_matched_frame [OF ni req, of "JObj fs" status] r by simp_all
    have gone: "map_of (outstandingRequests ?st') i = None"
      by (simp add: fr delete_conv')
    have rd: "read_prop (JObj fs) ''msg_id'' = Inr (Some (JNum i))"
      using m by (simp add: read_prop_def)
    have later: "additionalValidator request \<noteq> None \<longrightarrow>
        fst (dispatch r (JObj fs) i status st) = None
        \<and> invoked ?st' = invoked st \<and> awaited i ?st' = Suc (awaited i st)"
      using rd by (auto simp: dispatch_validating [OF ni req] awaited_def awaits_def)
    have second: "handleRawIncoming other ?st' (Some (Inr (JObj fs))) =
        dispatch r (JObj fs) i status ?st'"
      by (rule handle_reply [OF fr(1) m s])
    show ?thesis
      unfolding first second using gone later dispatch_unmatched [OF ni gone, of "JObj fs" status]
      by (simp add: pending_def)
  qed
  show ?thesis using bound twice by blast
qed

theorem callback_fires_at_most_once_witness:
  "resolver busy = Some idle_resolver \<and> \<not> intercept idle_resolver 9
   \<and> map_of (outstandingRequests busy) 9 = Some request9
   \<and> additionalValidator request9 \<noteq> None
   \<and> map_of (reply_fields 9) ''msg_id'' = Some (JNum 9)
   \<and> map_of (reply_fields 9) ''status'' = Some (JNum 0)
   \<and> fired 9 busy = 0 \<and> pending 9 busy \<and> awaited 9 busy = 0
   \<and> fired 9 (run object_only ''timed out''
                [Incoming (Some (Inr (JObj (reply_fields 9)))),
                 Incoming (Some (Inr (JObj (reply_fields 9)))), Settle 0, Tick 30000,
                 Incoming (Some (Inr (JObj (reply_fields 9)))), Settle 0] busy) \<le> 1
   \<and> \<not> pending 9 (snd (handleRawIncoming object_only busy (Some (Inr (JObj (reply_fields 9))))))
   \<and> invoked (snd (handleRawIncoming object_only busy (Some (Inr (JObj (reply_fields 9)))))) = []
   \<and> awaited 9 (snd (handleRawIncoming object_only busy (Some (Inr (JObj (reply_fields 9)))))) = 1
   \<and> handleRawIncoming object_only
        (snd (handleRawIncoming object_only busy (Some (Inr (JObj (reply_fields 9))))))
        (Some (Inr (JObj (reply_fields 9)))) =
        (None,
         say Warn
           ''message was received that did not match a pending request. has it already timed out?''
           [9] (say Debug ''incoming message'' [9, 0]
                  (snd (handleRawIncoming object_only busy (Some (Inr (JObj (reply_fields 9))))))))"
proof -
  have h: "resolver busy = Some idle_resolver \<and> \<not> intercept idle_resolver 9
      \<and> map_of (outstandingRequests busy) 9 = Some request9
      \<and> map_of (reply_fields 9) ''msg_id'' = Some (JNum 9)
      \<and> map_of (reply_fields 9) ''status'' = Some (JNum 0)"
    by (simp add: busy_def configured_def idle_resolver_def intercept_def reply_fields_def)
  have v: "additionalValidator request9 \<noteq> None"
    by (simp add: request9_def)
  have z: "fired 9 busy = 0" "pending 9 busy" "awaited 9 busy = 0" "invoked busy = []"
    by (simp_all add: busy_def configured_def constructor_def fired_def pending_def awaited_def)
  note t = callback_fires_at_most_once
      [of 9 object_only "''timed out''"
          "[Incoming (Some (Inr (JObj (reply_fields 9)))),
            Incoming (Some (Inr (JObj (reply_fields 9)))), Settle 0, Tick 30000,
            Incoming (Some (Inr (JObj (reply_fields 9)))), Settle 0]"
          busy idle_resolver request9 "reply_fields 9" 0]
  have b: "fired 9 (run object_only ''timed out''
                [Incoming (Some (Inr (JObj (reply_fields 9)))),
                 Incoming (Some (Inr (JObj (reply_fields 9)))), Settle 0, Tick 30000,
                 Incoming (Some (Inr (JObj (reply_fields 9)))), Settle 0] busy) \<le> 1"
    using t [THEN conjunct1] by (simp only: z if_True)
  show ?thesis
    using h v z b t [THEN conjunct2] by simp
qed

text \<open>
  The bound of C3 is reached: the reply to request 9, whose validator accepts, delivered
  three times around the settling of its promise and a run of the terminator, invokes the
  callback once, and it does so when the promise settles, not in the handler.
\<close>

lemma duplicate_replies_fire_once:
  "fired 9 (run object_only ''timed out''
              [Incoming (Some (Inr (JObj (reply_fields 9)))),
               Incoming (Some (Inr (JObj (reply_fields 9))))] busy) = 0
   \<and> fired 9 (run object_only ''timed out''
              [Incoming (Some (Inr (JObj (reply_fields 9)))),
               Incoming (Some (Inr (JObj (reply_fields 9)))), Settle 0, Tick 30000,
               Incoming (Some (Inr (JObj (reply_fields 9)))), Settle 0] busy) = 1"
  by (simp add: step_def handleRawIncoming_def numeric_object reply_fields_def busy_def
      configured_def constructor_def idle_resolver_def dispatch_def intercept_def say_def
      complete_def settle_def request7_def request8_def request9_def request10_def
      accept_all_def answer_ok_def respond_def terminateTimedOut_def overdue_def expire_def
      identifierConsumed_def fired_def answers_def read_prop_def Let_def)

subsection \<open>After a timeout\<close>

lemma loop_allocated_subset:
  "allocated (world (terminate_loop text now ks st)) \<subseteq> allocated (world st)"
proof (induction ks arbitrary: st)
  case Nil
  then show ?case by simp
next
  case (Cons k ks)
  let ?st = "case map_of (outstandingRequests st) k of
               None \<Rightarrow> st
             | Some entry \<Rightarrow> if overdue now entry then expire text k entry st else st"
  have "allocated (world ?st) \<subseteq> allocated (world st)"
    by (auto simp: expire_fields identifierConsumed_def respond_def split: option.splits)
  moreover have "allocated (world (terminate_loop text now ks ?st)) \<subseteq> allocated (world ?st)"
    by (rule Cons.IH)
  ultimately have "allocated (world (terminate_loop text now ks ?st)) \<subseteq> allocated (world st)"
    by blast
  then show ?case by simp
qed

lemma loop_handles_overdue:
  assumes "map_of (outstandingRequests st) i = Some e" and "overdue now e" and "i \<in> set ks"
  shows "\<not> pending i (terminate_loop text now ks st)
       \<and> uid e \<notin> allocated (world (terminate_loop text now ks st))"
  using assms
proof (induction ks arbitrary: st)
  case Nil
  then show ?case by simp
next
  case (Cons k ks)
  show ?case
  proof (cases "k = i")
    case True
    let ?st = "expire text i e st"
    have "\<not> pending i ?st"
      by (simp add: pending_def expire_fields delete_conv')
    then have a: "\<not> pending i (terminate_loop text now ks ?st)"
      by (rule loop_not_pending)
    have "uid e \<notin> allocated (world ?st)"
      by (simp add: expire_fields identifierConsumed_def)
    then have b: "uid e \<notin> allocated (world (terminate_loop text now ks ?st))"
      using loop_allocated_subset [of "text" now ks ?st] by blast
    show ?thesis using True Cons.prems a b by simp
  next
    case False
    let ?st = "case map_of (outstandingRequests st) k of
                 None \<Rightarrow> st
               | Some entry \<Rightarrow> if overdue now entry then expire text k entry st else st"
    have still: "map_of (outstandingRequests ?st) i = Some e"
      using False Cons.prems(1) by (simp add: expire_fields split: option.splits)
    have "i \<in> set ks"
      using False Cons.prems(3) by simp
    from Cons.IH [OF still Cons.prems(2) this] show ?thesis by simp
  qed
qed

lemma terminateTimedOut_handles_overdue:
  assumes "map_of (outstandingRequests st) i = Some e" and "overdue now e"
  shows "\<not> pending i (terminateTimedOut text st now)
       \<and> uid e \<notin> allocated (world (terminateTimedOut text st now))"
proof -
  have "i \<in> set (map fst (outstandingRequests st))"
    using assms(1) by (force dest: map_of_SomeD)
  then show ?thesis
    unfolding terminateTimedOut_def by (rule loop_handles_overdue [OF assms])
qed

text \<open>
  C4. Once the terminator has run at a time when the record under \<open>i\<close> was overdue, the
  record is gone. Whatever frames, sweeps and settling promises follow, no callback is
  invoked for a reply to \<open>i\<close>, but for the replies to \<open>i\<close> that validator promises already
  held before the sweep; those belong to earlier records, taken from the table when their
  replies arrived, and with none of them outstanding the count for \<open>i\<close> stays as it is.
  And a reply to \<open>i\<close> that the resolver does not claim leaves the state as it is but for
  two log lines, the second being the warning: no HTTP response, no callback, no exception.
\<close>

theorem late_reply_after_timeout_is_dropped:
  assumes "map_of (outstandingRequests st) i = Some entry"
    and "now - timestamp entry > 15000"
  shows "\<not> pending i (terminateTimedOut text st now)
    \<and> (\<forall>evs. fired i (run other text evs (terminateTimedOut text st now))
                \<le> fired i st + awaited i st)
    \<and> (awaited i st = 0 \<longrightarrow>
         (\<forall>evs. fired i (run other text evs (terminateTimedOut text st now)) = fired i st))
    \<and> (resolver st = Some r \<and> \<not> intercept r i
        \<and> map_of fs ''msg_id'' = Some (JNum i) \<and> map_of fs ''status'' = Some (JNum status) \<longrightarrow>
        handleRawIncoming other (terminateTimedOut text st now) (Some (Inr (JObj fs))) =
          (None,
           say Warn
             ''message was received that did not match a pending request. has it already timed out?''
             [i] (say Debug ''incoming message'' [i, status] (terminateTimedOut text st now))))"
proof -
  let ?st = "terminateTimedOut text st now"
  have od: "overdue now entry"
    using assms(2) by (simp add: overdue_def)
  have gone: "\<not> pending i ?st"
    using terminateTimedOut_handles_overdue [OF assms(1) od] by simp
  have same: "fired i ?st = fired i st" "awaited i ?st = awaited i st"
    by (simp_all add: fired_def awaited_def terminateTimedOut_def loop_frame)
  have bound: "\<forall>evs. fired i (run other text evs ?st) \<le> fired i st + awaited i st"
  proof
    fix evs
    show "fired i (run other text evs ?st) \<le> fired i st + awaited i st"
      using run_bound [of i other "text" evs ?st] gone same by simp
  qed
  have never: "awaited i st = 0 \<longrightarrow> (\<forall>evs. fired i (run other text evs ?st) = fired i st)"
    using never_fires [OF gone, of other "text"] same by simp
  have drop: "handleRawIncoming other ?st (Some (Inr (JObj fs))) =
      (None,
       say Warn
         ''message was received that did not match a pending request. has it already timed out?''
         [i] (say Debug ''incoming message'' [i, status] ?st))"
    if r: "resolver st = Some r" and ni: "\<not> intercept r i"
      and m: "map_of fs ''msg_id'' = Some (JNum i)" and s: "map_of fs ''status'' = Some (JNum status)"
  proof -
    have r': "resolver ?st = Some r"
      using r by (simp add: terminateTimedOut_def loop_frame)
    have none: "map_of (outstandingRequests ?st) i = None"
      using gone by (simp add: pending_def)
    show ?thesis
      using handle_reply [OF r' m s] dispatch_unmatched [OF ni none] by simp
  qed
  show ?thesis using gone bound never drop by blast
qed

theorem late_reply_after_timeout_is_dropped_witness:
  "map_of (outstandingRequests busy) 7 = Some request7
   \<and> 16500 - timestamp request7 > 15000
   \<and> awaited 7 busy = 0
   \<and> resolver busy = Some idle_resolver \<and> \<not> intercept idle_resolver 7
   \<and> map_of (reply_fields 7) ''msg_id'' = Some (JNum 7)
   \<and> map_of (reply_fields 7) ''status'' = Some (JNum 0)
   \<and> \<not> pending 7 (terminateTimedOut ''timed out'' busy 16500)
   \<and> fired 7 (run object_only ''timed out''
                [Incoming (Some (Inr (JObj (reply_fields 7)))), Tick 18500, Settle 0,
                 Incoming (Some (Inr (JObj (reply_fields 7))))]
                (terminateTimedOut ''timed out'' busy 16500)) = 0
   \<and> handleRawIncoming object_only (terminateTimedOut ''timed out'' busy 16500)
        (Some (Inr (JObj (reply_fields 7)))) =
       (None,
        say Warn
          ''message was received that did not match a pending request. has it already timed out?''
          [7] (say Debug ''incoming message'' [7, 0] (terminateTimedOut ''timed out'' busy 16500)))"
proof -
  have a: "map_of (outstandingRequests busy) 7 = Some request7"
    by (simp add: busy_def)
  have b: "16500 - timestamp request7 > 15000"
    by (simp add: request7_def)
  have h: "resolver busy = Some idle_resolver \<and> \<not> intercept idle_resolver 7
      \<and> map_of (reply_fields 7) ''msg_id'' = Some (JNum 7)
      \<and> map_of (reply_fields 7) ''status'' = Some (JNum 0)"
    by (simp add: busy_def configured_def idle_resolver_def intercept_def reply_fields_def)
  have z: "fired 7 busy = 0" "awaited 7 busy = 0"
    by (simp_all add: busy_def configured_def constructor_def fired_def awaited_def)
  note t = late_reply_after_timeout_is_dropped
      [OF a b, of "''timed out''" object_only idle_resolver "reply_fields 7" 0]
  have c: "\<not> pending 7 (terminateTimedOut ''timed out'' busy 16500)"
    using t by blast
  have d: "fired 7 (run object_only ''timed out''
                [Incoming (Some (Inr (JObj (reply_fields 7)))), Tick 18500, Settle 0,
                 Incoming (Some (Inr (JObj (reply_fields 7))))]
                (terminateTimedOut ''timed out'' busy 16500)) = 0"
    using t [THEN conjunct2, THEN conjunct2, THEN conjunct1, rule_format, OF z(2)]
    by (simp only: z)
  have e: "handleRawIncoming object_only (terminateTimedOut ''timed out'' busy 16500)
        (Some (Inr (JObj (reply_fields 7)))) =
       (None,
        say Warn
          ''message was received that did not match a pending request. has it already timed out?''
          [7] (say Debug ''incoming message'' [7, 0] (terminateTimedOut ''timed out'' busy 16500)))"
    using t h by blast
  show ?thesis using a b h z(2) c d e by blast
qed

subsection \<open>Validators\<close>

text \<open>
  C7. A reply that matches a pending record carrying a validator: the handler takes the
  record from the table and returns, with no callback invoked and the world untouched, and
  the validator's promise is left to settle. When it settles: if the validator accepted,
  the callback is invoked once with \<open>(response, timestamp, reply, status)\<close> and the world is
  what the callback leaves; if the validator answered false, or rejected, one line is
  logged (a warning, an error), no callback is invoked, now or after any later frames,
  sweeps and settling promises (but for replies to the same id that earlier promises still
  hold), and the world, that is every HTTP response and the identifier pool, is as it was.
\<close>

theorem validator_gates_callback:
  assumes "resolver st = Some r" and "\<not> intercept r mid"
    and "map_of fs ''msg_id'' = Some (JNum mid)" and "map_of fs ''status'' = Some (JNum status)"
    and "map_of (outstandingRequests st) mid = Some request"
    and "additionalValidator request = Some v"
  shows "\<exists>st1 st'. handleRawIncoming other st (Some (Inr (JObj fs))) = (None, st1)
    \<and> invoked st1 = invoked st \<and> world st1 = world st \<and> \<not> pending mid st1
    \<and> validating st1 = validating st @
        [\<lparr>c_request = request, c_reply = JObj fs, c_status = status, c_outcome = v (JObj fs)\<rparr>]
    \<and> st' = settle (length (validating st)) st1
    \<and> (v (JObj fs) = Resolves True \<longrightarrow>
          invoked st' = invoked st @
            [\<lparr>inv_http = response request, inv_timestamp = timestamp request,
              inv_response = JObj fs, inv_status = status\<rparr>]
          \<and> world st' =
              snd (callback request (response request) (timestamp request) (JObj fs) status
                     (world st)))
    \<and> (v (JObj fs) = Resolves False \<longrightarrow>
          invoked st' = invoked st \<and> world st' = world st
          \<and> logged st' = logged st @
              [(Debug, ''incoming message'', [mid, status]),
               (Warn, ''message was rejected because it did not pass the additional validator'', [])]
          \<and> (\<forall>evs. fired mid (run other text evs st') \<le> fired mid st + awaited mid st)
          \<and> (awaited mid st = 0 \<longrightarrow>
                (\<forall>evs. fired mid (run other text evs st') = fired mid st)))
    \<and> (v (JObj fs) = Rejects \<longrightarrow>
          invoked st' = invoked st \<and> world st' = world st
          \<and> logged st' = logged st @
              [(Debug, ''incoming message'', [mid, status]),
               (Err, ''message was rejected because the validator errored out'', [])]
          \<and> (\<forall>evs. fired mid (run other text evs st') \<le> fired mid st + awaited mid st)
          \<and> (awaited mid st = 0 \<longrightarrow>
                (\<forall>evs. fired mid (run other text evs st') = fired mid st)))"
proof -
  let ?c = "\<lparr>c_request = request, c_reply = JObj fs, c_status = status, c_outcome = v (JObj fs)\<rparr>"
  let ?st1 = "(say Debug ''incoming message'' [mid, status] st)
        \<lparr>outstandingRequests := AList.delete mid (outstandingRequests st),
         validating := validating st @ [?c]\<rparr>"
  let ?st' = "settle (length (validating st)) ?st1"
  have h: "handleRawIncoming other st (Some (Inr (JObj fs))) = (None, ?st1)"
    using handle_reply [OF assms(1,3,4), of other] dispatch_validating [OF assms(2,5,6)]
    by simp
  have one: "invoked ?st1 = invoked st \<and> world ?st1 = world st \<and> \<not> pending mid ?st1
      \<and> validating ?st1 = validating st @ [?c]"
    by (simp add: pending_def delete_conv')
  have gone: "\<not> pending mid ?st'"
    using settle_frame [of "length (validating st)" ?st1]
    by (simp add: pending_def delete_conv')
  have yes: "v (JObj fs) = Resolves True \<longrightarrow>
      invoked ?st' = invoked st @
        [\<lparr>inv_http = response request, inv_timestamp = timestamp request,
          inv_response = JObj fs, inv_status = status\<rparr>]
      \<and> world ?st' =
          snd (callback request (response request) (timestamp request) (JObj fs) status (world st))"
    by (simp add: settle_def Let_def complete_fields case_prod_unfold split: option.splits)
  have quiet: "(\<forall>evs. fired mid (run other text evs ?st') \<le> fired mid st + awaited mid st)
      \<and> (awaited mid st = 0 \<longrightarrow> (\<forall>evs. fired mid (run other text evs ?st') = fired mid st))"
    if q: "invoked ?st' = invoked st" "validating ?st' = validating st"
  proof -
    have f: "fired mid ?st' = fired mid st" "awaited mid ?st' = awaited mid st"
      using q by (simp_all add: fired_def awaited_def)
    have "fired mid (run other text evs ?st') \<le> fired mid st + awaited mid st" for evs
      using run_bound [of mid other "text" evs ?st'] gone f by simp
    moreover have "awaited mid st = 0 \<longrightarrow> fired mid (run other text evs ?st') = fired mid st" for evs
      using never_fires [OF gone, of other "text" evs] f by simp
    ultimately show ?thesis by blast
  qed
  have no: "v (JObj fs) = Resolves False \<longrightarrow>
      invoked ?st' = invoked st \<and> world ?st' = world st \<and> validating ?st' = validating st
      \<and> logged ?st' = logged st @
          [(Debug, ''incoming message'', [mid, status]),
           (Warn, ''message was rejected because it did not pass the additional validator'', [])]"
    by (simp add: settle_def Let_def)
  have bad: "v (JObj fs) = Rejects \<longrightarrow>
      invoked ?st' = invoked st \<and> world ?st' = world st \<and> validating ?st' = validating st
      \<and> logged ?st' = logged st @
          [(Debug, ''incoming message'', [mid, status]),
           (Err, ''message was rejected because the validator errored out'', [])]"
    by (simp add: settle_def Let_def)
  show ?thesis
    using h one yes no bad quiet
    by (intro exI [of _ ?st1] exI [of _ ?st']) blast
qed

theorem validator_gates_callback_witness:
  "resolver busy = Some idle_resolver \<and> validating busy = []
   \<and> (\<exists>st1 st'. handleRawIncoming object_only busy (Some (Inr (JObj (reply_fields 9)))) = (None, st1)
         \<and> invoked st1 = [] \<and> world st1 = world busy \<and> st' = settle 0 st1
         \<and> invoked st' =
             [\<lparr>inv_http = 3, inv_timestamp = 9000, inv_response = JObj (reply_fields 9),
               inv_status = 0\<rparr>]
         \<and> http (world st') = [(3, 200, JObj (reply_fields 9))])
   \<and> (\<exists>st1 st'. handleRawIncoming object_only busy (Some (Inr (JObj (reply_fields 8)))) = (None, st1)
         \<and> st' = settle 0 st1 \<and> invoked st' = [] \<and> world st' = world busy
         \<and> fired 8 (run object_only ''timed out'' [Tick 30000, Settle 0] st') = 0)
   \<and> (\<exists>st1 st'. handleRawIncoming object_only busy (Some (Inr (JObj (reply_fields 10)))) = (None, st1)
         \<and> st' = settle 0 st1 \<and> invoked st' = [] \<and> world st' = world busy
         \<and> fired 10 (run object_only ''timed out'' [Tick 30000, Settle 0] st') = 0)"
proof -
  have r: "resolver busy = Some idle_resolver"
    by (simp add: busy_def configured_def)
  have ni: "\<not> intercept idle_resolver i" for i
    by (simp add: intercept_def idle_resolver_def)
  have m: "map_of (reply_fields i) ''msg_id'' = Some (JNum i)"
    and s: "map_of (reply_fields i) ''status'' = Some (JNum 0)" for i
    by (simp_all add: reply_fields_def)
  have z: "invoked busy = []" "validating busy = []" "fired i busy = 0" "awaited i busy = 0" for i
    by (simp_all add: busy_def configured_def constructor_def fired_def awaited_def)
  have wb: "world busy = \<lparr>allocated = {7, 8, 9, 10}, http = []\<rparr>"
    by (simp add: busy_def)
  have p9: "map_of (outstandingRequests busy) 9 = Some request9"
    and p8: "map_of (outstandingRequests busy) 8 = Some request8"
    and p10: "map_of (outstandingRequests busy) 10 = Some request10"
    by (simp_all add: busy_def)
  have v9: "additionalValidator request9 = Some accept_all"
    and v8: "additionalValidator request8 = Some reject_all"
    and v10: "additionalValidator request10 = Some broken_validator"
    by (simp_all add: request9_def request8_def request10_def)
  have a: "\<exists>st1 st'. handleRawIncoming object_only busy (Some (Inr (JObj (reply_fields 9)))) = (None, st1)
         \<and> invoked st1 = [] \<and> world st1 = world busy \<and> st' = settle 0 st1
         \<and> invoked st' =
             [\<lparr>inv_http = 3, inv_timestamp = 9000, inv_response = JObj (reply_fields 9),
               inv_status = 0\<rparr>]
         \<and> http (world st') = [(3, 200, JObj (reply_fields 9))]"
    using validator_gates_callback [OF r ni m s p9 v9, of object_only "''timed out''"]
    by (auto simp: accept_all_def z wb request9_def answer_ok_def respond_def)
  have b: "\<exists>st1 st'. handleRawIncoming object_only busy (Some (Inr (JObj (reply_fields 8)))) = (None, st1)
         \<and> st' = settle 0 st1 \<and> invoked st' = [] \<and> world st' = world busy
         \<and> fired 8 (run object_only ''timed out'' [Tick 30000, Settle 0] st') = 0"
    using validator_gates_callback [OF r ni m s p8 v8, of object_only "''timed out''"]
    by (auto simp only: reject_all_def z list.size)
  have c: "\<exists>st1 st'. handleRawIncoming object_only busy (Some (Inr (JObj (reply_fields 10)))) = (None, st1)
         \<and> st' = settle 0 st1 \<and> invoked st' = [] \<and> world st' = world busy
         \<and> fired 10 (run object_only ''timed out'' [Tick 30000, Settle 0] st') = 0"
    using validator_gates_callback [OF r ni m s p10 v10, of object_only "''timed out''"]
    by (auto simp only: broken_validator_def z list.size)
  show ?thesis using r z(2) a b c by blast
qed

subsection \<open>A callback that throws\<close>

text \<open>
  Without a validator the callback runs in the handler, and what it throws leaves the
  handler, after the record has been taken from the table. With a validator the callback
  runs under the promise, and what it throws is caught and logged.
\<close>

lemma throwing_callback:
  assumes "resolver st = Some r" and "\<not> intercept r mid"
    and "map_of fs ''msg_id'' = Some (JNum mid)" and "map_of fs ''status'' = Some (JNum status)"
    and "map_of (outstandingRequests st) mid = Some request"
    and "callback request = faulty"
  shows "additionalValidator request = None \<longrightarrow>
           fst (handleRawIncoming other st (Some (Inr (JObj fs)))) = Some (Error ''callback failed'')
           \<and> \<not> pending mid (snd (handleRawIncoming other st (Some (Inr (JObj fs)))))"
    and "additionalValidator request = Some v \<and> v (JObj fs) = Resolves True \<longrightarrow>
           fst (handleRawIncoming other st (Some (Inr (JObj fs)))) = None
           \<and> logged (settle (length (validating st))
                       (snd (handleRawIncoming other st (Some (Inr (JObj fs)))))) =
               logged st @
               [(Debug, ''incoming message'', [mid, status]),
                (Err, ''message was rejected because the validator errored out'', [])]"
proof -
  have h: "handleRawIncoming other st (Some (Inr (JObj fs))) = dispatch r (JObj fs) mid status st"
    by (rule handle_reply [OF assms(1,3,4)])
  show "additionalValidator request = None \<longrightarrow>
           fst (handleRawIncoming other st (Some (Inr (JObj fs)))) = Some (Error ''callback failed'')
           \<and> \<not> pending mid (snd (handleRawIncoming other st (Some (Inr (JObj fs)))))"
    using assms(6) dispatch_direct [OF assms(2,5), of "JObj fs" status]
    by (auto simp: h complete_fields faulty_def pending_def delete_conv')
  show "additionalValidator request = Some v \<and> v (JObj fs) = Resolves True \<longrightarrow>
           fst (handleRawIncoming other st (Some (Inr (JObj fs)))) = None
           \<and> logged (settle (length (validating st))
                       (snd (handleRawIncoming other st (Some (Inr (JObj fs)))))) =
               logged st @
               [(Debug, ''incoming message'', [mid, status]),
                (Err, ''message was rejected because the validator errored out'', [])]"
    using assms(6) dispatch_validating [OF assms(2,5), of v "JObj fs" status]
    by (auto simp: h settle_def Let_def complete_def faulty_def case_prod_unfold)
qed

subsection \<open>Releasing identifiers\<close>





end
